theory Spec2Isabelle
  imports Complex_Main "HOL-Library.Word"
begin

section \<open>Platform values the services rely on\<close>

text \<open>
  The services in \<^verbatim>\<open>geminiService.ts\<close> run on the browser's Web Audio API. JavaScript
  numbers are modelled as \<^typ>\<open>real\<close> (finite, exactly computed: rounding, NaN and the
  infinities of IEEE doubles are outside the model), the elements of a \<^verbatim>\<open>Uint8Array\<close> as
  \<^typ>\<open>8 word\<close>, and every exception the code can meet as a value of \<open>js_error\<close>.
  Of the platform, the model has what comes back into the program: the exceptions its
  methods throw, the events it delivers and the clock. For the rendering of the audio
  itself it records the calls the program makes.
\<close>

type_synonym byte = "8 word"

datatype js_error = NotSupportedError | RangeError | InvalidStateError | ResumeRejected

text \<open>An \<^verbatim>\<open>AudioBuffer\<close> with one channel: its sample rate and the samples of channel 0.\<close>

record audio_buffer =
  sampleRate :: real
  channelData :: "real list"

definition duration :: "audio_buffer \<Rightarrow> real" where
  "duration b = real (length (channelData b)) / sampleRate b"

text \<open>
  An \<^verbatim>\<open>AudioBufferSourceNode\<close>. The \<^verbatim>\<open>onended\<close> handler that \<^verbatim>\<open>play\<close> installs is a
  closure over the player and over that call's \<^verbatim>\<open>onEnded\<close> argument; a callback is
  identified by a number, and \<open>node_onended = Some cb\<close> holds the argument \<open>cb\<close>
  (\<open>None\<close> when it was \<^verbatim>\<open>undefined\<close>). A node is \<open>Unstarted\<close> until \<^verbatim>\<open>start\<close>; \<open>Started\<close>
  while it renders; \<open>Finished\<close> once it has stopped rendering (by \<^verbatim>\<open>stop()\<close> or because a
  buffer that does not loop was played to its end) and its \<^verbatim>\<open>ended\<close> event waits in the
  task queue; \<open>Dispatched\<close> once that event has been delivered.
\<close>

datatype node_state = Unstarted | Started | Finished | Dispatched

record source_node =
  node_buffer :: "audio_buffer option"
  node_rate :: real
  node_loop :: bool
  node_connected :: bool
  node_onended :: "nat option option"
  node_offset :: real
  node_state :: node_state

text \<open>
  The shared \<^verbatim>\<open>AudioContext\<close>: its state, its clock, the source nodes created on it (a
  node is referred to by its index), the interval of sample rates the implementation
  accepts (the Web Audio specification requires it to contain 8000 to 96000 Hz), and how
  the platform settles a call of \<^verbatim>\<open>resume()\<close>.
\<close>

datatype context_state = Suspended | Running | Closed

datatype resume_outcome = Resolves | Rejects | Pends

record audio_context =
  ctx_state :: context_state
  currentTime :: real
  nodes :: "source_node list"
  minRate :: real
  maxRate :: real
  resumeSettles :: resume_outcome

text \<open>
  \<^verbatim>\<open>BaseAudioContext.createBuffer(numberOfChannels, length, sampleRate)\<close>. The Web Audio
  specification has it throw \<^verbatim>\<open>NotSupportedError\<close> when an argument is zero, negative or
  outside its nominal range; the frames of a new buffer are all zero.
\<close>

definition createBuffer :: "audio_context \<Rightarrow> nat \<Rightarrow> nat \<Rightarrow> real \<Rightarrow> js_error + audio_buffer" where
  "createBuffer c numberOfChannels len rate =
     (if numberOfChannels = 0 \<or> len = 0 \<or> rate < minRate c \<or> maxRate c < rate
      then Inl NotSupportedError
      else Inr \<lparr>sampleRate = rate, channelData = replicate len 0\<rparr>)"

text \<open>
  \<^verbatim>\<open>DataView.getInt16(byteOffset, true)\<close>: the two bytes at \<open>byteOffset\<close>, low byte first,
  read as a two's complement 16-bit integer; \<^verbatim>\<open>RangeError\<close> when they are not both inside
  the view.
\<close>

definition getInt16 :: "byte list \<Rightarrow> nat \<Rightarrow> js_error + int" where
  "getInt16 view byteOffset =
     (if byteOffset + 2 \<le> length view
      then Inr (sint (word_cat (view ! (byteOffset + 1)) (view ! byteOffset) :: 16 word))
      else Inl RangeError)"

section \<open>The PCM decoder\<close>

text \<open>
  \<^verbatim>\<open>for (let i = 0; i < numSamples; i++) channelData[i] = view.getInt16(i * 2, true) / 32768.0\<close>
  as a recursion on \<open>i\<close>. A write to a typed array outside its bounds is ignored, as
  \<open>list_update\<close> does.
\<close>

function fillChannel :: "byte list \<Rightarrow> nat \<Rightarrow> nat \<Rightarrow> real list \<Rightarrow> js_error + real list" where
  "fillChannel view numSamples i cd =
     (if i < numSamples
      then (case getInt16 view (i * 2) of
              Inl e \<Rightarrow> Inl e
            | Inr v \<Rightarrow> fillChannel view numSamples (i + 1) (cd[i := real_of_int v / 32768]))
      else Inr cd)"
  by pat_completeness auto
termination
  by (relation "measure (\<lambda>(view, numSamples, i, cd). numSamples - i)") auto

declare fillChannel.simps [simp del]

definition rawPcmToAudioBuffer :: "byte list \<Rightarrow> audio_context \<Rightarrow> real \<Rightarrow> js_error + audio_buffer" where
  "rawPcmToAudioBuffer pcmData audioContext rate =
     (let usableLength = length pcmData - (length pcmData mod 2);
          view = take usableLength pcmData;
          numSamples = usableLength div 2
      in case createBuffer audioContext 1 numSamples rate of
           Inl e \<Rightarrow> Inl e
         | Inr audioBuffer \<Rightarrow>
             (case fillChannel view numSamples 0 (channelData audioBuffer) of
                Inl e \<Rightarrow> Inl e
              | Inr cd \<Rightarrow> Inr (audioBuffer\<lparr>channelData := cd\<rparr>)))"

text \<open>The sample the specification names: \<open>int16LE(bytes[2i..2i+2]) / 32768\<close>.\<close>

definition int16LE :: "byte \<Rightarrow> byte \<Rightarrow> int" where
  "int16LE lo hi = sint (word_cat hi lo :: 16 word)"

definition sampleAt :: "byte list \<Rightarrow> nat \<Rightarrow> real" where
  "sampleAt bytes i = real_of_int (int16LE (bytes ! (2 * i)) (bytes ! (2 * i + 1))) / 32768"

section \<open>Source nodes, animation frames and JavaScript's remainder\<close>

text \<open>\<^verbatim>\<open>audioContext.createBufferSource()\<close>: a new node, not started, with the defaults of the API.\<close>

definition createBufferSource :: "audio_context \<Rightarrow> nat \<times> audio_context" where
  "createBufferSource c =
     (length (nodes c),
      c\<lparr>nodes := nodes c @
         [\<lparr>node_buffer = None, node_rate = 1, node_loop = False, node_connected = False,
           node_onended = None, node_offset = 0, node_state = Unstarted\<rparr>]\<rparr>)"

definition updNode :: "nat \<Rightarrow> (source_node \<Rightarrow> source_node) \<Rightarrow> audio_context \<Rightarrow> audio_context" where
  "updNode n f c = c\<lparr>nodes := (nodes c)[n := f (nodes c ! n)]\<rparr>"

text \<open>
  \<^verbatim>\<open>source.start(0, offset)\<close>: \<^verbatim>\<open>InvalidStateError\<close> on a node that was started before,
  \<^verbatim>\<open>RangeError\<close> on a negative offset; otherwise the node renders, and \<open>node_offset\<close> holds
  the offset the call passed (the platform clamps it to the duration of the buffer when
  rendering begins).
\<close>

definition startNode :: "nat \<Rightarrow> real \<Rightarrow> audio_context \<Rightarrow> js_error + audio_context" where
  "startNode n offset c =
     (if node_state (nodes c ! n) \<noteq> Unstarted then Inl InvalidStateError
      else if offset < 0 then Inl RangeError
      else Inr (updNode n (\<lambda>x. x\<lparr>node_offset := offset, node_state := Started\<rparr>) c))"

text \<open>
  \<^verbatim>\<open>source.stop()\<close>: \<^verbatim>\<open>InvalidStateError\<close> on a node that was never started; a rendering
  node stops and its \<^verbatim>\<open>ended\<close> event is queued; a node that has stopped already stays as it is.
\<close>

definition stopNode :: "nat \<Rightarrow> audio_context \<Rightarrow> js_error + audio_context" where
  "stopNode n c =
     (case node_state (nodes c ! n) of
        Unstarted \<Rightarrow> Inl InvalidStateError
      | Started \<Rightarrow> Inr (updNode n (\<lambda>x. x\<lparr>node_state := Finished\<rparr>) c)
      | Finished \<Rightarrow> Inr c
      | Dispatched \<Rightarrow> Inr c)"


text \<open>
  The remainder \<^verbatim>\<open>a % b\<close> of JavaScript on finite numbers with \<open>b \<noteq> 0\<close>: the quotient is
  truncated towards zero, so the result has the sign of \<open>a\<close>. (\<^verbatim>\<open>a % 0\<close> is NaN, which the
  model does not represent; no buffer has duration 0, since \<open>createBuffer\<close> rejects
  a length of 0.)
\<close>

definition js_rem :: "real \<Rightarrow> real \<Rightarrow> real" where
  "js_rem a b = a - b * of_int (if 0 \<le> a / b then \<lfloor>a / b\<rfloor> else \<lceil>a / b\<rceil>)"

section \<open>PCMPlayer\<close>

text \<open>
  The fields of the class. \<open>source\<close> refers to a node of the context by its index;
  the callbacks are identified by numbers; \<^verbatim>\<open>null\<close> and \<^verbatim>\<open>undefined\<close> are \<open>None\<close>.
\<close>

record pcm_player =
  buffer :: "audio_buffer option"
  source :: "nat option"
  isPlaying :: bool
  playbackRate :: real
  pauseOffset :: real
  startTime :: real
  onProgressCb :: "nat option"
  onEndedCb :: "nat option"
  loop :: bool
  animationFrameId :: "nat option"

text \<open>
  What a call can read and change: the player, the audio context, the animation frames
  requested and not yet run or cancelled (\<^verbatim>\<open>requestAnimationFrame\<close> returns a fresh non-zero
  handle), and the record of the callbacks invoked: \<open>endedCalls\<close> holds, for every
  invocation of an \<^verbatim>\<open>onEnded\<close> callback, the node whose event caused it and the callback;
  \<open>progressCalls\<close> holds the callback and the two arguments of every \<^verbatim>\<open>onProgress\<close>
  invocation. Callbacks are opaque: they do not call back into the player.
\<close>

record world =
  player :: pcm_player
  audioContext :: audio_context
  frames :: "nat list"
  nextFrame :: nat
  endedCalls :: "(nat \<times> nat) list"
  progressCalls :: "(nat \<times> real \<times> real) list"

definition newPlayer :: pcm_player where
  "newPlayer = \<lparr>buffer = None, source = None, isPlaying = False, playbackRate = 1,
     pauseOffset = 0, startTime = 0, onProgressCb = None, onEndedCb = None, loop = False,
     animationFrameId = None\<rparr>"

text \<open>
  A new player on the context \<open>c\<close>. The nodes recorded are the ones this player creates;
  the nodes other players have created on the shared context are left out.
\<close>

definition newWorld :: "audio_context \<Rightarrow> world" where
  "newWorld c = \<lparr>player = newPlayer, audioContext = c\<lparr>nodes := []\<rparr>, frames = [],
     nextFrame = 1, endedCalls = [], progressCalls = []\<rparr>"

text \<open>
  A call returns the exception it threw, if any, and the world it left: what was
  assigned before a \<^verbatim>\<open>throw\<close> stays assigned.
\<close>

type_synonym outcome = "js_error option \<times> world"

definition load :: "byte list \<Rightarrow> world \<Rightarrow> outcome" where
  "load rawPcm w =
     (case rawPcmToAudioBuffer rawPcm (audioContext w) 24000 of
        Inl e \<Rightarrow> (Some e, w)
      | Inr b \<Rightarrow> (None, w\<lparr>player := (player w)\<lparr>buffer := Some b, pauseOffset := 0\<rparr>\<rparr>))"

definition setRate :: "real \<Rightarrow> world \<Rightarrow> outcome" where
  "setRate rate w =
     (let w1 = w\<lparr>player := (player w)\<lparr>playbackRate := rate\<rparr>\<rparr>
      in case source (player w1) of
           None \<Rightarrow> (None, w1)
         | Some n \<Rightarrow>
             (None, w1\<lparr>audioContext := updNode n (\<lambda>x. x\<lparr>node_rate := rate\<rparr>) (audioContext w1)\<rparr>))"

definition getDuration :: "world \<Rightarrow> real" where
  "getDuration w =
     (case buffer (player w) of
        None \<Rightarrow> 0
      | Some b \<Rightarrow> if duration b = 0 then 0 else duration b)"

definition getCurrentTime :: "world \<Rightarrow> real" where
  "getCurrentTime w =
     (let p = player w in
      if \<not> isPlaying p then pauseOffset p
      else
        let time = pauseOffset p + (currentTime (audioContext w) - startTime p) * playbackRate p
        in case buffer p of
             None \<Rightarrow> time
           | Some b \<Rightarrow> if loop p then js_rem time (duration b) else time)"

definition requestAnimationFrame :: "world \<Rightarrow> nat \<times> world" where
  "requestAnimationFrame w =
     (nextFrame w, w\<lparr>frames := frames w @ [nextFrame w], nextFrame := nextFrame w + 1\<rparr>)"

definition cancelAnimationFrame :: "nat \<Rightarrow> world \<Rightarrow> world" where
  "cancelAnimationFrame i w = w\<lparr>frames := removeAll i (frames w)\<rparr>"

text \<open>\<^verbatim>\<open>if (this.animationFrameId) cancelAnimationFrame(this.animationFrameId)\<close>: 0 is falsy.\<close>

definition cancelProgress :: "world \<Rightarrow> world" where
  "cancelProgress w =
     (case animationFrameId (player w) of
        None \<Rightarrow> w
      | Some i \<Rightarrow> if i = 0 then w else cancelAnimationFrame i w)"

definition startProgressTimer :: "world \<Rightarrow> world" where
  "startProgressTimer w =
     (let (i, w1) = requestAnimationFrame w
      in w1\<lparr>player := (player w1)\<lparr>animationFrameId := Some i\<rparr>\<rparr>)"

text \<open>The closure \<^verbatim>\<open>update\<close> of \<^verbatim>\<open>startProgressTimer\<close>, run by the platform for a requested frame.\<close>

definition update :: "world \<Rightarrow> world" where
  "update w =
     (case (isPlaying (player w), onProgressCb (player w), buffer (player w)) of
        (True, Some cb, Some b) \<Rightarrow>
          (let w1 = w\<lparr>progressCalls := progressCalls w @ [(cb, getCurrentTime w, duration b)]\<rparr>;
               (i, w2) = requestAnimationFrame w1
           in w2\<lparr>player := (player w2)\<lparr>animationFrameId := Some i\<rparr>\<rparr>)
      | _ \<Rightarrow> w)"

text \<open>
  \<^verbatim>\<open>play\<close> from its second line on. The exception of \<^verbatim>\<open>start\<close> leaves the fields assigned
  before it as they are.
\<close>

definition playBody :: "nat option \<Rightarrow> nat option \<Rightarrow> bool \<Rightarrow> world \<Rightarrow> outcome" where
  "playBody onProgress onEnded lp w =
     (let p = player w in
      if buffer p = None \<or> isPlaying p then (None, w)
      else
        let (n, c1) = createBufferSource (audioContext w);
            p1 = p\<lparr>onProgressCb := onProgress, onEndedCb := onEnded, loop := lp, source := Some n\<rparr>;
            c2 = updNode n (\<lambda>x. x\<lparr>node_buffer := buffer p, node_rate := playbackRate p,
                   node_loop := lp, node_connected := True, node_onended := Some onEnded\<rparr>) c1
        in case startNode n (pauseOffset p) c2 of
             Inl e \<Rightarrow> (Some e, w\<lparr>player := p1, audioContext := c2\<rparr>)
           | Inr c3 \<Rightarrow>
               (None, startProgressTimer
                  (w\<lparr>player := p1\<lparr>startTime := currentTime c3, isPlaying := True\<rparr>,
                     audioContext := c3\<rparr>)))"

text \<open>
  \<^verbatim>\<open>play\<close>: on a suspended context it first awaits \<^verbatim>\<open>resume()\<close>. The await is modelled by
  its outcome: the rest of the body runs once the promise has resolved, the call rejects
  when the promise rejects, and nothing more happens while it stays pending.
\<close>

definition play :: "nat option \<Rightarrow> nat option \<Rightarrow> bool \<Rightarrow> world \<Rightarrow> outcome" where
  "play onProgress onEnded lp w =
     (if ctx_state (audioContext w) = Suspended
      then (case resumeSettles (audioContext w) of
              Resolves \<Rightarrow> playBody onProgress onEnded lp
                            (w\<lparr>audioContext := (audioContext w)\<lparr>ctx_state := Running\<rparr>\<rparr>)
            | Rejects \<Rightarrow> (Some ResumeRejected, w)
            | Pends \<Rightarrow> (None, w))
      else playBody onProgress onEnded lp w)"

definition pause :: "world \<Rightarrow> outcome" where
  "pause w =
     (let p = player w in
      if \<not> isPlaying p then (None, w)
      else
        let p1 = p\<lparr>pauseOffset := pauseOffset p
                     + (currentTime (audioContext w) - startTime p) * playbackRate p\<rparr>;
            w1 = w\<lparr>player := p1\<rparr>
        in case (case source p1 of None \<Rightarrow> Inr (audioContext w1)
                 | Some n \<Rightarrow> stopNode n (audioContext w1)) of
             Inl e \<Rightarrow> (Some e, w1)
           | Inr c \<Rightarrow>
               (None, cancelProgress
                  (w1\<lparr>player := p1\<lparr>source := None, isPlaying := False\<rparr>, audioContext := c\<rparr>)))"

definition stop :: "world \<Rightarrow> outcome" where
  "stop w =
     (let p = player w in
      case (case source p of None \<Rightarrow> Inr (audioContext w)
            | Some n \<Rightarrow> stopNode n (audioContext w)) of
        Inl e \<Rightarrow> (Some e, w)
      | Inr c \<Rightarrow>
          (None, cancelProgress
             (w\<lparr>player := p\<lparr>source := None, isPlaying := False, pauseOffset := 0\<rparr>,
                audioContext := c\<rparr>)))"

text \<open>
  \<^verbatim>\<open>seek\<close> does not await the promise of \<^verbatim>\<open>play\<close>: a rejection of that call is not thrown
  by \<^verbatim>\<open>seek\<close>.
\<close>

definition seek :: "real \<Rightarrow> world \<Rightarrow> outcome" where
  "seek seconds w =
     (let wasPlaying = isPlaying (player w) in
      case stop w of
        (Some e, w1) \<Rightarrow> (Some e, w1)
      | (None, w1) \<Rightarrow>
          (let w2 = w1\<lparr>player := (player w1)\<lparr>pauseOffset := seconds\<rparr>\<rparr>
           in if wasPlaying
              then (None, snd (play (onProgressCb (player w2)) (onEndedCb (player w2))
                                 (loop (player w2)) w2))
              else (None, w2)))"

text \<open>
  The \<^verbatim>\<open>onended\<close> handler installed by \<^verbatim>\<open>play\<close>, run for node \<open>n\<close>; \<open>onEnded\<close> is the
  argument of the call that installed it.
\<close>

definition endedHandler :: "nat \<Rightarrow> nat option \<Rightarrow> world \<Rightarrow> world" where
  "endedHandler n onEnded w =
     (if \<not> loop (player w)
      then
        let w1 = cancelProgress (w\<lparr>player := (player w)\<lparr>isPlaying := False\<rparr>\<rparr>)
        in case onEnded of
             None \<Rightarrow> w1
           | Some cb \<Rightarrow> w1\<lparr>endedCalls := endedCalls w1 @ [(n, cb)]\<rparr>
      else w)"

section \<open>Calls and platform events in sequence\<close>

text \<open>
  What can happen to a player on the single-threaded event loop: a call of its interface,
  or a step of the platform. \<open>NaturalEnd n\<close>: node \<open>n\<close>, which does not loop, has rendered
  its buffer to the end. \<open>EndedEvent n\<close>: the queued \<^verbatim>\<open>ended\<close> event of node \<open>n\<close> is
  delivered to its handler. \<open>AnimationFrame i\<close>: the frame with handle \<open>i\<close> runs.
  \<open>Advance dt\<close>: the clock of the context moves on by \<open>dt\<close>.
\<close>

datatype event =
    Load "byte list"
  | Play "nat option" "nat option" bool
  | Pause
  | Stop
  | Seek real
  | SetRate real
  | NaturalEnd nat
  | EndedEvent nat
  | AnimationFrame nat
  | Advance real

definition naturalEnd :: "nat \<Rightarrow> world \<Rightarrow> world" where
  "naturalEnd n w =
     (let c = audioContext w in
      if n < length (nodes c) \<and> node_state (nodes c ! n) = Started \<and> \<not> node_loop (nodes c ! n)
      then w\<lparr>audioContext := updNode n (\<lambda>x. x\<lparr>node_state := Finished\<rparr>) c\<rparr>
      else w)"

definition endedEvent :: "nat \<Rightarrow> world \<Rightarrow> world" where
  "endedEvent n w =
     (let c = audioContext w in
      if n < length (nodes c) \<and> node_state (nodes c ! n) = Finished
      then
        let w1 = w\<lparr>audioContext := updNode n (\<lambda>x. x\<lparr>node_state := Dispatched\<rparr>) c\<rparr>
        in case node_onended (nodes c ! n) of
             None \<Rightarrow> w1
           | Some onEnded \<Rightarrow> endedHandler n onEnded w1
      else w)"

definition animationFrame :: "nat \<Rightarrow> world \<Rightarrow> world" where
  "animationFrame i w =
     (if i \<in> set (frames w) then update (w\<lparr>frames := removeAll i (frames w)\<rparr>) else w)"

definition advance :: "real \<Rightarrow> world \<Rightarrow> world" where
  "advance dt w =
     (if 0 \<le> dt
      then w\<lparr>audioContext := (audioContext w)\<lparr>currentTime := currentTime (audioContext w) + dt\<rparr>\<rparr>
      else w)"

fun step :: "event \<Rightarrow> world \<Rightarrow> world" where
  "step (Load rawPcm) w = snd (load rawPcm w)"
| "step (Play onProgress onEnded lp) w = snd (play onProgress onEnded lp w)"
| "step Pause w = snd (pause w)"
| "step Stop w = snd (stop w)"
| "step (Seek seconds) w = snd (seek seconds w)"
| "step (SetRate rate) w = snd (setRate rate w)"
| "step (NaturalEnd n) w = naturalEnd n w"
| "step (EndedEvent n) w = endedEvent n w"
| "step (AnimationFrame i) w = animationFrame i w"
| "step (Advance dt) w = advance dt w"

fun run :: "event list \<Rightarrow> world \<Rightarrow> world" where
  "run [] w = w"
| "run (e # es) w = run es (step e w)"

text \<open>The number of nodes that render at this moment.\<close>

definition activeSources :: "world \<Rightarrow> nat" where
  "activeSources w = length (filter (\<lambda>x. node_state x = Started) (nodes (audioContext w)))"

section \<open>Auxiliary notions for the proofs\<close>

text \<open>The node \<^verbatim>\<open>play\<close> has configured, before (\<open>Unstarted\<close>) and after \<^verbatim>\<open>start\<close>.\<close>

definition playNode :: "pcm_player \<Rightarrow> nat option \<Rightarrow> bool \<Rightarrow> node_state \<Rightarrow> source_node" where
  "playNode p onEnded lp st = \<lparr>node_buffer = buffer p, node_rate = playbackRate p, node_loop = lp,
     node_connected = True, node_onended = Some onEnded,
     node_offset = (if st = Unstarted then 0 else pauseOffset p), node_state = st\<rparr>"

text \<open>The context after \<^verbatim>\<open>stop()\<close> on a node that has been started.\<close>

definition halted :: "nat \<Rightarrow> audio_context \<Rightarrow> audio_context" where
  "halted n c = (if node_state (nodes c ! n) = Started
                 then updNode n (\<lambda>x. x\<lparr>node_state := Finished\<rparr>) c else c)"

text \<open>
  What holds of the player after every sequence of calls and events: while it plays, its
  source is a node that has been started, a buffer is loaded, the offset is not negative
  and the start time is not in the future; its source is a node of the context; and a
  loaded buffer has at least one sample, at 24000 Hz.
\<close>

definition consistentPC :: "pcm_player \<Rightarrow> audio_context \<Rightarrow> bool" where
  "consistentPC p c \<longleftrightarrow>
     (isPlaying p \<longrightarrow> (\<exists>n. source p = Some n \<and> node_state (nodes c ! n) \<noteq> Unstarted)
        \<and> buffer p \<noteq> None \<and> 0 \<le> pauseOffset p \<and> startTime p \<le> currentTime c)
     \<and> (\<forall>n. source p = Some n \<longrightarrow> n < length (nodes c))
     \<and> (\<forall>b. buffer p = Some b \<longrightarrow> channelData b \<noteq> [] \<and> sampleRate b = 24000)"

definition consistent :: "world \<Rightarrow> bool" where
  "consistent w = consistentPC (player w) (audioContext w)"

text \<open>
  A sequence of events without a call of \<^verbatim>\<open>load\<close>, and what holds of the player after
  such a sequence.
\<close>

fun isLoad :: "event \<Rightarrow> bool" where
  "isLoad (Load rawPcm) = True"
| "isLoad _ = False"

definition unloaded :: "world \<Rightarrow> bool" where
  "unloaded w \<longleftrightarrow> buffer (player w) = None \<and> \<not> isPlaying (player w) \<and> source (player w) = None
     \<and> animationFrameId (player w) = None \<and> nodes (audioContext w) = []
     \<and> endedCalls w = [] \<and> progressCalls w = [] \<and> frames w = []"

text \<open>
  For the count of the end callbacks: a context \<open>grows\<close> into another when no node is lost
  and no delivered event is undone; and the record of the invocations is \<open>delivered\<close> when
  it names each node at most once, and only nodes whose event has been delivered.
\<close>

definition grows :: "audio_context \<Rightarrow> audio_context \<Rightarrow> bool" where
  "grows c c' \<longleftrightarrow> length (nodes c) \<le> length (nodes c')
     \<and> (\<forall>n < length (nodes c). node_state (nodes c ! n) = Dispatched
            \<longrightarrow> node_state (nodes c' ! n) = Dispatched)"

definition delivered :: "world \<Rightarrow> bool" where
  "delivered w \<longleftrightarrow> distinct (map fst (endedCalls w))
     \<and> (\<forall>x \<in> set (endedCalls w). fst x < length (nodes (audioContext w))
            \<and> node_state (nodes (audioContext w) ! fst x) = Dispatched)"

section \<open>The active line of the dialogue card\<close>

text \<open>
  \<^verbatim>\<open>activeLineIndex\<close> of \<^verbatim>\<open>DialogueCard.tsx\<close>. The enumeration \<^verbatim>\<open>AppState\<close> is declared in
  \<^verbatim>\<open>types.ts\<close>; the members below are the ones the component names. A line of a dialogue
  has a speaker and a text (\<open>line_text\<close>), and \<^verbatim>\<open>text.length\<close> counts the elements of the
  string.
\<close>

datatype app_state = IDLE | PLAYING_AUDIO | RECORDING | ANALYZING

record dialogue_line =
  speaker :: string
  line_text :: string

text \<open>
  \<^verbatim>\<open>lines.findIndex(l => { const start = acc; const end = acc + l.text.length + 5; acc = end;
  return currentPos >= start && currentPos <= end; })\<close>: the callback runs on the lines in
  order until it returns true, \<open>acc\<close> is the variable it updates, \<open>i\<close> the index of
  the first line of the list, and -1 the result when no line matches.
\<close>

fun findIndexFrom :: "real \<Rightarrow> dialogue_line list \<Rightarrow> nat \<Rightarrow> nat \<Rightarrow> int" where
  "findIndexFrom currentPos [] acc i = - 1"
| "findIndexFrom currentPos (l # ls) acc i =
     (let start = acc; end' = acc + length (line_text l) + 5
      in if currentPos \<ge> real start \<and> currentPos \<le> real end' then int i
         else findIndexFrom currentPos ls end' (i + 1))"

definition totalCharsOf :: "dialogue_line list \<Rightarrow> nat" where
  "totalCharsOf ls = foldl (\<lambda>sum l. sum + length (line_text l) + 5) 0 ls"

definition activeLineIndex :: "app_state \<Rightarrow> bool \<Rightarrow> real \<Rightarrow> dialogue_line list \<Rightarrow> int" where
  "activeLineIndex appState playing audioProgress ls =
     (if (appState \<noteq> PLAYING_AUDIO \<and> \<not> playing \<and> audioProgress = 0) \<or> audioProgress \<ge> 99.9
      then - 1
      else
        let totalChars = totalCharsOf ls;
            currentPos = (audioProgress / 100) * real totalChars
        in findIndexFrom currentPos ls 0 0)"

text \<open>The cumulative boundary before line \<open>i\<close>: the lengths of the lines before it, 5 added to each.\<close>

definition boundary :: "dialogue_line list \<Rightarrow> nat \<Rightarrow> nat" where
  "boundary ls i = (\<Sum>l\<leftarrow>take i ls. length (line_text l) + 5)"

section \<open>Concrete values for the examples\<close>

text \<open>A running context with the mandatory interval of sample rates and no node yet.\<close>

definition runningContext :: audio_context where
  "runningContext = \<lparr>ctx_state = Running, currentTime = 0, nodes = [], minRate = 8000,
     maxRate = 96000, resumeSettles = Resolves\<rparr>"

text \<open>Five bytes: the samples -32768 and 32767, and one byte left over.\<close>

definition fiveBytes :: "byte list" where
  "fiveBytes = [0x00, 0x80, 0xFF, 0x7F, 0x01]"

text \<open>Two lines with the boundaries 0, 7 and 17.\<close>

definition twoLines :: "dialogue_line list" where
  "twoLines = [\<lparr>speaker = ''A'', line_text = ''Hi''\<rparr>, \<lparr>speaker = ''B'', line_text = ''Hello''\<rparr>]"

text \<open>A player that has played the two samples of \<open>fiveBytes\<close> for 1/48000 s.\<close>

definition playingWorld :: world where
  "playingWorld = run [Load fiveBytes, Play (Some 3) (Some 7) False, Advance (1 / 48000)]
                    (newWorld runningContext)"


text \<open>
  Ten seconds of silence (480000 bytes at 24000 Hz), and a player that has looped over them
  for 12 s.
\<close>

definition tenSeconds :: "byte list" where
  "tenSeconds = replicate 480000 0"

definition loopingWorld :: world where
  "loopingWorld = run [Load tenSeconds, Play None None True, Advance 12] (newWorld runningContext)"

section \<open>Properties of the decoder\<close>

lemma signed_take_bit_15:
  assumes "0 \<le> (u::int)" and "u < 65536"
  shows "signed_take_bit 15 u = (if u < 32768 then u else u - 65536)"
proof -
  have s: "signed_take_bit 15 u = (u + 32768) mod 65536 - 32768"
    by (simp add: signed_take_bit_eq_take_bit_shift take_bit_eq_mod)
  show ?thesis
  proof (cases "u < 32768")
    case True
    then have "(u + 32768) mod 65536 = u + 32768"
      using assms by (intro mod_pos_pos_trivial) simp_all
    with True s show ?thesis by simp
  next
    case False
    have "u + 32768 = (u - 32768) + 65536" by linarith
    then have "(u + 32768) mod 65536 = ((u - 32768) + 65536) mod 65536" by (simp only:)
    also have "\<dots> = (u - 32768) mod 65536" by (rule mod_add_self2)
    also have "\<dots> = u - 32768"
      using False assms by (intro mod_pos_pos_trivial) simp_all
    finally show ?thesis using False s by simp
  qed
qed

text \<open>\<open>int16LE\<close> is the two's complement reading of \<open>lo + 256 * hi\<close>.\<close>

lemma int16LE_arith:
  "int16LE lo hi = (let u = uint lo + 256 * uint hi in if u < 32768 then u else u - 65536)"
proof -
  let ?w = "word_cat hi lo :: 16 word"
  let ?u = "uint lo + 256 * uint hi"
  have lo: "0 \<le> uint lo" "uint lo < 256" using uint_lt2p [of lo] by simp_all
  have hi: "0 \<le> uint hi" "uint hi < 256" using uint_lt2p [of hi] by simp_all
  have c: "concat_bit LENGTH(8) (uint lo) (uint hi) = ?u"
    using lo by (simp add: concat_bit_eq take_bit_int_eq_self push_bit_eq_mult)
  have "uint ?w = take_bit LENGTH(16) ?u"
    unfolding word_cat_eq' uint_word_of_int_eq c ..
  also have "\<dots> = ?u"
    using lo hi by (simp add: take_bit_int_eq_self)
  finally have u: "uint ?w = ?u" .
  have r: "0 \<le> ?u" "?u < 65536" using lo hi by simp_all
  have "sint ?w = signed_take_bit 15 ?u"
    by (simp only: sint_uint u) simp
  also have "\<dots> = (if ?u < 32768 then ?u else ?u - 65536)"
    using r by (rule signed_take_bit_15)
  finally show ?thesis unfolding int16LE_def by (simp add: Let_def)
qed

text \<open>The loop never reads outside the view, and writes sample \<open>i\<close> at index \<open>i\<close>.\<close>

lemma fillChannel_from:
  "length cd = n \<Longrightarrow> i \<le> n \<Longrightarrow> 2 * n \<le> length view \<Longrightarrow>
   fillChannel view n i cd = Inr (take i cd @ map (sampleAt view) [i..<n])"
proof (induction view n i cd rule: fillChannel.induct)
  case (1 view numSamples i cd)
  show ?case
  proof (cases "i < numSamples")
    case True
    let ?v = "int16LE (view ! (2 * i)) (view ! (2 * i + 1))"
    let ?cd = "cd[i := real_of_int ?v / 32768]"
    have g: "getInt16 view (i * 2) = Inr ?v"
      using True 1(4) by (simp add: getInt16_def int16LE_def mult.commute)
    have "fillChannel view numSamples (i + 1) ?cd
       = Inr (take (i + 1) ?cd @ map (sampleAt view) [i + 1..<numSamples])"
      using 1(1)[OF True g] 1(2,3,4) True by simp
    then show ?thesis
      using True g 1(2)
      by (subst fillChannel.simps) (simp add: sampleAt_def take_Suc_conv_app_nth upt_conv_Cons)
  next
    case False
    then show ?thesis using 1(2,3) by (subst fillChannel.simps) simp
  qed
qed

lemma sampleAt_take:
  assumes "i < n div 2"
  shows "sampleAt (take (n - n mod 2) bytes) i = sampleAt bytes i"
proof -
  from assms have "2 * i < n - n mod 2" "2 * i + 1 < n - n mod 2" by presburger+
  then show ?thesis by (simp add: sampleAt_def)
qed

lemma rawPcmToAudioBuffer_eq:
  "rawPcmToAudioBuffer bytes c rate =
     (if length bytes < 2 \<or> rate < minRate c \<or> maxRate c < rate then Inl NotSupportedError
      else Inr \<lparr>sampleRate = rate, channelData = map (sampleAt bytes) [0..<length bytes div 2]\<rparr>)"
proof -
  let ?u = "length bytes - length bytes mod 2"
  let ?n = "?u div 2"
  have n: "?n = length bytes div 2" by presburger
  have z: "?n = 0 \<longleftrightarrow> length bytes < 2" by presburger
  have len: "2 * ?n \<le> length (take ?u bytes)" by (simp add: n) presburger
  have fill: "fillChannel (take ?u bytes) ?n 0 (replicate ?n 0)
      = Inr (map (sampleAt (take ?u bytes)) [0..<?n])"
    using fillChannel_from [of "replicate ?n 0" ?n 0 "take ?u bytes"] len by simp
  have m: "map (sampleAt (take ?u bytes)) [0..<?n] = map (sampleAt bytes) [0..<length bytes div 2]"
    unfolding n by (rule map_cong) (simp_all add: sampleAt_take)
  show ?thesis
    using z fill m n
    by (simp add: rawPcmToAudioBuffer_def createBuffer_def Let_def del: One_nat_def)
qed

lemma rawPcmToAudioBuffer_prefix:
  "rawPcmToAudioBuffer (take (length bytes - length bytes mod 2) bytes) c rate
     = rawPcmToAudioBuffer bytes c rate"
proof -
  let ?u = "length bytes - length bytes mod 2"
  have l: "length (take ?u bytes) = ?u" by simp
  have d: "?u div 2 = length bytes div 2" by presburger
  have z: "?u < 2 \<longleftrightarrow> length bytes < 2" by presburger
  have m: "map (sampleAt (take ?u bytes)) [0..<length bytes div 2]
         = map (sampleAt bytes) [0..<length bytes div 2]"
    by (rule map_cong) (simp_all add: sampleAt_take)
  show ?thesis
    unfolding rawPcmToAudioBuffer_eq [of "take ?u bytes"] rawPcmToAudioBuffer_eq [of bytes] l d z m ..
qed

lemma sampleAt_range: "- 1 \<le> sampleAt bytes i \<and> sampleAt bytes i < 1"
proof -
  define v where "v = int16LE (bytes ! (2 * i)) (bytes ! (2 * i + 1))"
  have "- (2 ^ (LENGTH(16) - 1)) \<le> v" unfolding v_def int16LE_def by (rule sint_ge)
  moreover have "v < 2 ^ (LENGTH(16) - 1)" unfolding v_def int16LE_def by (rule sint_lt)
  ultimately have "- 32768 \<le> v" "v < 32768" by simp_all
  then have "- 32768 \<le> real_of_int v" "real_of_int v < 32768" by linarith+
  then show ?thesis unfolding sampleAt_def v_def [symmetric] by simp
qed

lemma fiveBytes_samples: "map (sampleAt fiveBytes) [0..<2] = [- 1, 32767 / 32768]"
  by code_simp

lemma lowest_sample: "sampleAt [0x00, 0x80] 0 = - 1"
  by code_simp

lemma highest_sample: "sampleAt [0xFF, 0x7F] 0 = 32767 / 32768"
  by code_simp

text \<open>
  C8, as the specification states it, fails on the empty input: \<open>createBuffer\<close> rejects a
  buffer of zero frames, so the decoder throws \<^verbatim>\<open>NotSupportedError\<close> instead of returning a
  buffer without samples.
\<close>

theorem decoder_rejects_empty_input:
  "rawPcmToAudioBuffer [] runningContext 24000 = Inl NotSupportedError"
  by (simp add: rawPcmToAudioBuffer_eq runningContext_def)

text \<open>
  C8 (amended): at a sample rate the context supports, every byte sequence of at least two
  bytes decodes to exactly \<open>length div 2\<close> samples, sample \<open>i\<close> being the signed 16-bit
  little-endian integer of bytes \<open>2i\<close> and \<open>2i+1\<close> (the two's complement reading of
  \<open>byte 2i + 256 * byte (2i+1)\<close>) divided by 32768; a sequence of fewer than two bytes makes
  the decoder throw \<^verbatim>\<open>NotSupportedError\<close>; and the result for any input is the result for its
  even-length prefix, the last byte of an odd-length input being ignored. The quotient of
  a 16-bit integer by 32768 is a 32-bit float, so the real number is the sample stored.
\<close>

theorem decoder_samples:
  assumes "minRate c \<le> rate" and "rate \<le> maxRate c"
  shows "rawPcmToAudioBuffer bytes c rate =
           (if length bytes < 2 then Inl NotSupportedError
            else Inr \<lparr>sampleRate = rate,
                       channelData = map (sampleAt bytes) [0..<length bytes div 2]\<rparr>)
         \<and> rawPcmToAudioBuffer bytes c rate =
             rawPcmToAudioBuffer (take (length bytes - length bytes mod 2) bytes) c rate
         \<and> sampleAt bytes i =
             real_of_int (let u = uint (bytes ! (2 * i)) + 256 * uint (bytes ! (2 * i + 1))
                          in if u < 32768 then u else u - 65536) / 32768"
proof (intro conjI)
  show "rawPcmToAudioBuffer bytes c rate =
           (if length bytes < 2 then Inl NotSupportedError
            else Inr \<lparr>sampleRate = rate,
                       channelData = map (sampleAt bytes) [0..<length bytes div 2]\<rparr>)"
    using assms by (simp add: rawPcmToAudioBuffer_eq)
  show "rawPcmToAudioBuffer bytes c rate =
             rawPcmToAudioBuffer (take (length bytes - length bytes mod 2) bytes) c rate"
    by (simp add: rawPcmToAudioBuffer_prefix)
  show "sampleAt bytes i =
             real_of_int (let u = uint (bytes ! (2 * i)) + 256 * uint (bytes ! (2 * i + 1))
                          in if u < 32768 then u else u - 65536) / 32768"
    unfolding sampleAt_def int16LE_arith ..
qed

theorem decoder_samples_witness:
  "minRate runningContext \<le> 24000 \<and> 24000 \<le> maxRate runningContext
   \<and> rawPcmToAudioBuffer fiveBytes runningContext 24000
       = Inr \<lparr>sampleRate = 24000, channelData = [- 1, 32767 / 32768]\<rparr>
   \<and> rawPcmToAudioBuffer fiveBytes runningContext 24000
       = rawPcmToAudioBuffer (take 4 fiveBytes) runningContext 24000"
proof -
  have h1: "minRate runningContext \<le> 24000" and h2: "24000 \<le> maxRate runningContext"
    by (simp_all add: runningContext_def)
  have l: "length fiveBytes = 5" by (simp add: fiveBytes_def)
  note th = decoder_samples [OF h1 h2, of fiveBytes, unfolded l]
  have d: "rawPcmToAudioBuffer fiveBytes runningContext 24000
       = Inr \<lparr>sampleRate = 24000, channelData = [- 1, 32767 / 32768]\<rparr>"
    using th [THEN conjunct1] by (simp add: fiveBytes_samples)
  have "(5::nat) - 5 mod 2 = 4" by simp
  then have e: "rawPcmToAudioBuffer fiveBytes runningContext 24000
       = rawPcmToAudioBuffer (take 4 fiveBytes) runningContext 24000"
    using th [THEN conjunct2, THEN conjunct1] by (simp only:)
  from h1 h2 d e show ?thesis by (intro conjI)
qed

text \<open>
  C10: every sample the decoder produces lies in the half-open interval from -1 to 1;
  -1 is attained (by the bytes 00 80), 1 never is.
\<close>

theorem decoder_range:
  "(rawPcmToAudioBuffer bytes c rate = Inr b \<longrightarrow> (\<forall>x \<in> set (channelData b). - 1 \<le> x \<and> x < 1))
   \<and> rawPcmToAudioBuffer [0x00, 0x80] runningContext 24000
       = Inr \<lparr>sampleRate = 24000, channelData = [- 1]\<rparr>"
proof
  show "rawPcmToAudioBuffer bytes c rate = Inr b \<longrightarrow> (\<forall>x \<in> set (channelData b). - 1 \<le> x \<and> x < 1)"
  proof
    assume "rawPcmToAudioBuffer bytes c rate = Inr b"
    then have "channelData b = map (sampleAt bytes) [0..<length bytes div 2]"
      unfolding rawPcmToAudioBuffer_eq by (auto split: if_splits)
    then show "\<forall>x \<in> set (channelData b). - 1 \<le> x \<and> x < 1"
      by (simp add: sampleAt_range)
  qed
  show "rawPcmToAudioBuffer [0x00, 0x80] runningContext 24000
       = Inr \<lparr>sampleRate = 24000, channelData = [- 1]\<rparr>"
    by (simp add: rawPcmToAudioBuffer_eq runningContext_def lowest_sample)
qed

theorem decoder_range_witness:
  "rawPcmToAudioBuffer [0xFF, 0x7F] runningContext 24000
     = Inr \<lparr>sampleRate = 24000, channelData = [32767 / 32768]\<rparr>
   \<and> - 1 \<le> (32767 / 32768 :: real) \<and> (32767 / 32768 :: real) < 1"
proof -
  have e: "rawPcmToAudioBuffer [0xFF, 0x7F] runningContext 24000
     = Inr \<lparr>sampleRate = 24000, channelData = [32767 / 32768]\<rparr>"
    by (simp add: rawPcmToAudioBuffer_eq runningContext_def highest_sample)
  have "\<forall>x \<in> set (channelData \<lparr>sampleRate = 24000, channelData = [32767 / 32768 :: real]\<rparr>).
          - 1 \<le> x \<and> x < 1"
    by (rule decoder_range [of "[0xFF, 0x7F]" runningContext 24000
        "\<lparr>sampleRate = 24000, channelData = [32767 / 32768]\<rparr>", THEN conjunct1, THEN mp, OF e])
  then have "- 1 \<le> (32767 / 32768 :: real) \<and> (32767 / 32768 :: real) < 1"
    by (simp del: divide_le_eq_numeral1 less_divide_eq_numeral1 le_divide_eq_numeral1 divide_less_eq_numeral1)
  with e show ?thesis by (intro conjI) (rule e, simp_all)
qed

section \<open>Properties of the active-line mapping\<close>

lemma boundary_0: "boundary ls 0 = 0"
  by (simp add: boundary_def)

lemma boundary_Cons_Suc: "boundary (l # ls) (Suc j) = length (line_text l) + 5 + boundary ls j"
  by (simp add: boundary_def)

lemma boundary_mono: "boundary ls j \<le> boundary ls (Suc j)"
proof (induction ls arbitrary: j)
  case Nil
  show ?case by (simp add: boundary_def)
next
  case (Cons l ls)
  show ?case
  proof (cases j)
    case 0
    then show ?thesis by (simp add: boundary_def)
  next
    case (Suc k)
    with Cons [of k] show ?thesis by (simp add: boundary_Cons_Suc)
  qed
qed

text \<open>The total length is the last boundary.\<close>

lemma foldl_chars: "foldl (\<lambda>sum l. sum + length (line_text l) + 5) a ls = a + boundary ls (length ls)"
  by (induction ls arbitrary: a) (simp_all add: boundary_def)

lemma totalCharsOf_boundary: "totalCharsOf ls = boundary ls (length ls)"
  by (simp add: totalCharsOf_def foldl_chars)

text \<open>A position strictly inside the span of line \<open>j\<close> is found at line \<open>j\<close>.\<close>

lemma findIndexFrom_inside:
  "j < length ls \<Longrightarrow> real (acc + boundary ls j) < pos \<Longrightarrow> pos < real (acc + boundary ls (Suc j))
   \<Longrightarrow> findIndexFrom pos ls acc i = int (i + j)"
proof (induction ls arbitrary: acc i j)
  case Nil
  then show ?case by simp
next
  case (Cons l ls)
  show ?case
  proof (cases j)
    case 0
    with Cons.prems show ?thesis by (simp add: boundary_def Let_def)
  next
    case (Suc k)
    let ?e = "acc + length (line_text l) + 5"
    have k: "k < length ls" using Cons.prems(1) Suc by simp
    have lo: "real (?e + boundary ls k) < pos"
      using Cons.prems(2) Suc by (simp add: boundary_Cons_Suc add.assoc add.commute)
    have hi: "pos < real (?e + boundary ls (Suc k))"
      using Cons.prems(3) Suc by (simp add: boundary_Cons_Suc add.assoc add.commute)
    have "real ?e \<le> real (?e + boundary ls k)" by simp
    with lo have out: "\<not> pos \<le> real ?e" by linarith
    have "findIndexFrom pos ls ?e (i + 1) = int (i + 1 + k)"
      by (rule Cons.IH [OF k lo hi])
    with out Suc show ?thesis by (simp add: Let_def)
  qed
qed

lemma findIndexFrom_first:
  "real acc \<le> pos \<Longrightarrow> pos \<le> real (acc + length (line_text l) + 5) \<Longrightarrow>
   findIndexFrom pos (l # ls) acc i = int i"
  by (simp add: Let_def)

text \<open>
  C9 (amended): with the total length the sum of the text lengths plus 5 for each line
  and \<open>currentPos = progress / 100 * totalLength\<close>, the mapping returns -1 when progress
  is at least 99.9, and when progress is exactly 0 while the card is neither in state
  \<^verbatim>\<open>PLAYING_AUDIO\<close> nor playing; at progress 0 while it is playing, the first line is
  active; and for a progress below 99.9 whose position lies strictly between the
  cumulative boundaries of line \<open>i\<close> it returns \<open>i\<close>.
\<close>

theorem activeLine_mapping:
  "(99.9 \<le> progress \<longrightarrow> activeLineIndex appState playing progress ls = - 1)
   \<and> (progress = 0 \<and> appState \<noteq> PLAYING_AUDIO \<and> \<not> playing
        \<longrightarrow> activeLineIndex appState playing progress ls = - 1)
   \<and> (progress = 0 \<and> (appState = PLAYING_AUDIO \<or> playing) \<and> ls \<noteq> []
        \<longrightarrow> activeLineIndex appState playing progress ls = 0)
   \<and> (progress < 99.9 \<and> i < length ls
        \<and> real (boundary ls i) < progress / 100 * real (totalCharsOf ls)
        \<and> progress / 100 * real (totalCharsOf ls) < real (boundary ls (Suc i))
        \<longrightarrow> activeLineIndex appState playing progress ls = int i)"
proof (intro conjI impI)
  assume "99.9 \<le> progress"
  then show "activeLineIndex appState playing progress ls = - 1"
    by (simp add: activeLineIndex_def)
next
  assume "progress = 0 \<and> appState \<noteq> PLAYING_AUDIO \<and> \<not> playing"
  then show "activeLineIndex appState playing progress ls = - 1"
    by (simp add: activeLineIndex_def)
next
  assume a: "progress = 0 \<and> (appState = PLAYING_AUDIO \<or> playing) \<and> ls \<noteq> []"
  then obtain l ls' where ls: "ls = l # ls'" by (cases ls) auto
  from a show "activeLineIndex appState playing progress ls = 0"
    by (auto simp: activeLineIndex_def ls Let_def)
next
  assume a: "progress < 99.9 \<and> i < length ls
        \<and> real (boundary ls i) < progress / 100 * real (totalCharsOf ls)
        \<and> progress / 100 * real (totalCharsOf ls) < real (boundary ls (Suc i))"
  let ?pos = "progress / 100 * real (totalCharsOf ls)"
  have "0 \<le> real (boundary ls i)" by simp
  with a have "0 < ?pos" by linarith
  then have nz: "progress \<noteq> 0" by auto
  have "findIndexFrom ?pos ls 0 0 = int (0 + i)"
    using a by (intro findIndexFrom_inside) simp_all
  with a nz show "activeLineIndex appState playing progress ls = int i"
    by (simp add: activeLineIndex_def Let_def)
qed

lemma twoLines_facts:
  "length twoLines = 2" "boundary twoLines (Suc 0) = 7" "boundary twoLines (Suc (Suc 0)) = 17" "totalCharsOf twoLines = 17"
  "twoLines \<noteq> []"
  by (simp_all add: twoLines_def boundary_def totalCharsOf_def)

theorem activeLine_mapping_witness:
  "activeLineIndex IDLE False 99.9 twoLines = - 1
   \<and> activeLineIndex IDLE False 0 twoLines = - 1
   \<and> activeLineIndex IDLE True 0 twoLines = 0
   \<and> activeLineIndex PLAYING_AUDIO True 50 twoLines = 1"
proof -
  have a: "activeLineIndex IDLE False 99.9 twoLines = - 1"
    using activeLine_mapping [of "99.9" IDLE False twoLines 0] by simp
  have b: "activeLineIndex IDLE False 0 twoLines = - 1"
    using activeLine_mapping [of 0 IDLE False twoLines 0] by simp
  have c: "activeLineIndex IDLE True 0 twoLines = 0"
    using activeLine_mapping [of 0 IDLE True twoLines 0] by (simp add: twoLines_facts)
  have d: "activeLineIndex PLAYING_AUDIO True 50 twoLines = 1"
    using activeLine_mapping [of 50 PLAYING_AUDIO True twoLines 1] by (simp add: twoLines_facts)
  from a b c d show ?thesis by (intro conjI)
qed

text \<open>
  C9, as the specification states it, fails at progress 0 while audio is playing: the
  sentinel is guarded by the state of the card, and the first line is returned.
\<close>

theorem activeLine_zero_progress_while_playing:
  "activeLineIndex PLAYING_AUDIO False 0 [\<lparr>speaker = ''A'', line_text = ''Hi''\<rparr>] = 0"
  by (simp add: activeLineIndex_def totalCharsOf_def Let_def)

section \<open>Outcomes of the calls\<close>

lemma playBody_idle:
  "buffer (player w) = None \<or> isPlaying (player w) \<Longrightarrow> playBody onProgress onEnded lp w = (None, w)"
  by (auto simp: playBody_def Let_def)

lemma playBody_rejected:
  assumes "buffer (player w) \<noteq> None" "\<not> isPlaying (player w)" "pauseOffset (player w) < 0"
  shows "playBody onProgress onEnded lp w =
    (Some RangeError,
     w\<lparr>player := (player w)\<lparr>onProgressCb := onProgress, onEndedCb := onEnded, loop := lp,
                              source := Some (length (nodes (audioContext w)))\<rparr>,
       audioContext := (audioContext w)\<lparr>nodes := nodes (audioContext w)
                          @ [playNode (player w) onEnded lp Unstarted]\<rparr>\<rparr>)"
  using assms
  by (cases "buffer (player w)")
     (simp_all add: playBody_def Let_def createBufferSource_def updNode_def startNode_def
        playNode_def)

lemma playBody_started:
  assumes "buffer (player w) \<noteq> None" "\<not> isPlaying (player w)" "0 \<le> pauseOffset (player w)"
  shows "playBody onProgress onEnded lp w =
    (None,
     w\<lparr>player := (player w)\<lparr>onProgressCb := onProgress, onEndedCb := onEnded, loop := lp,
                              source := Some (length (nodes (audioContext w))),
                              startTime := currentTime (audioContext w), isPlaying := True,
                              animationFrameId := Some (nextFrame w)\<rparr>,
       audioContext := (audioContext w)\<lparr>nodes := nodes (audioContext w)
                          @ [playNode (player w) onEnded lp Started]\<rparr>,
       frames := frames w @ [nextFrame w], nextFrame := nextFrame w + 1\<rparr>)"
  using assms
  by (cases "buffer (player w)")
     (simp_all add: playBody_def Let_def createBufferSource_def updNode_def startNode_def
        playNode_def startProgressTimer_def requestAnimationFrame_def)

lemma stopNode_eq:
  "stopNode n c = (if node_state (nodes c ! n) = Unstarted then Inl InvalidStateError
                   else Inr (halted n c))"
  by (cases "node_state (nodes c ! n)") (simp_all add: stopNode_def halted_def)

lemma halted_fields [simp]:
  "length (nodes (halted n c)) = length (nodes c)"
  "currentTime (halted n c) = currentTime c"
  "ctx_state (halted n c) = ctx_state c"
  "resumeSettles (halted n c) = resumeSettles c"
  "minRate (halted n c) = minRate c"
  "maxRate (halted n c) = maxRate c"
  by (simp_all add: halted_def updNode_def)

lemma halted_node_state:
  "m < length (nodes c) \<Longrightarrow>
   node_state (nodes (halted n c) ! m)
     = (if m = n \<and> node_state (nodes c ! n) = Started then Finished else node_state (nodes c ! m))"
  by (simp add: halted_def updNode_def nth_list_update)

lemma cancelProgress_fields [simp]:
  "player (cancelProgress w) = player w"
  "audioContext (cancelProgress w) = audioContext w"
  "endedCalls (cancelProgress w) = endedCalls w"
  "progressCalls (cancelProgress w) = progressCalls w"
  "nextFrame (cancelProgress w) = nextFrame w"
  by (simp_all add: cancelProgress_def cancelAnimationFrame_def split: option.splits)

lemma pause_idle: "\<not> isPlaying (player w) \<Longrightarrow> pause w = (None, w)"
  by (simp add: pause_def)

lemma pause_playing:
  assumes "isPlaying (player w)" "source (player w) = Some n"
    "node_state (nodes (audioContext w) ! n) \<noteq> Unstarted"
  shows "pause w =
    (None, cancelProgress
       (w\<lparr>player := (player w)\<lparr>pauseOffset := pauseOffset (player w)
            + (currentTime (audioContext w) - startTime (player w)) * playbackRate (player w),
            source := None, isPlaying := False\<rparr>,
          audioContext := halted n (audioContext w)\<rparr>))"
  using assms by (simp add: pause_def Let_def stopNode_eq)

lemma stop_no_source:
  "source (player w) = None \<Longrightarrow>
   stop w = (None, cancelProgress
     (w\<lparr>player := (player w)\<lparr>source := None, isPlaying := False, pauseOffset := 0\<rparr>,
        audioContext := audioContext w\<rparr>))"
  by (simp add: stop_def Let_def)

lemma stop_source:
  assumes "source (player w) = Some n" "node_state (nodes (audioContext w) ! n) \<noteq> Unstarted"
  shows "stop w = (None, cancelProgress
     (w\<lparr>player := (player w)\<lparr>source := None, isPlaying := False, pauseOffset := 0\<rparr>,
        audioContext := halted n (audioContext w)\<rparr>))"
  using assms by (simp add: stop_def Let_def stopNode_eq)

lemma stop_unstarted:
  assumes "source (player w) = Some n" "node_state (nodes (audioContext w) ! n) = Unstarted"
  shows "stop w = (Some InvalidStateError, w)"
  using assms by (simp add: stop_def Let_def stopNode_eq)

section \<open>The invariant of the player\<close>

lemma consistent_new: "consistent (newWorld c)"
  by (simp add: consistent_def consistentPC_def newWorld_def newPlayer_def)

lemma consistent_cancelProgress [simp]: "consistent (cancelProgress w) = consistent w"
  by (simp add: consistent_def)

lemma load_cases:
  "load bytes w = (Some NotSupportedError, w)
   \<or> (2 \<le> length bytes \<and> load bytes w = (None, w\<lparr>player := (player w)\<lparr>buffer :=
         Some \<lparr>sampleRate = 24000, channelData = map (sampleAt bytes) [0..<length bytes div 2]\<rparr>,
         pauseOffset := 0\<rparr>\<rparr>))"
  by (simp add: load_def rawPcmToAudioBuffer_eq)

lemma consistent_load: 
  assumes c: "consistent w" shows "consistent (snd (load bytes w))"
proof -
  from load_cases [of bytes w] show ?thesis
  proof
    assume "load bytes w = (Some NotSupportedError, w)"
    with c show ?thesis by simp
  next
    assume a: "2 \<le> length bytes \<and> load bytes w = (None, w\<lparr>player := (player w)\<lparr>buffer :=
         Some \<lparr>sampleRate = 24000, channelData = map (sampleAt bytes) [0..<length bytes div 2]\<rparr>,
         pauseOffset := 0\<rparr>\<rparr>)"
    then have "2 \<le> length bytes" ..
    then have "0 < length bytes div 2" by simp
    with a c show ?thesis
      by (simp add: consistent_def consistentPC_def)
  qed
qed

lemma consistent_setRate: "consistent w \<Longrightarrow> consistent (snd (setRate rate w))"
  by (cases "source (player w)")
     (auto simp: consistent_def consistentPC_def setRate_def Let_def updNode_def nth_list_update)

lemma consistent_playBody:
  assumes c: "consistent w" shows "consistent (snd (playBody a b lp w))"
proof -
  consider "buffer (player w) = None \<or> isPlaying (player w)"
    | "buffer (player w) \<noteq> None" "\<not> isPlaying (player w)" "pauseOffset (player w) < 0"
    | "buffer (player w) \<noteq> None" "\<not> isPlaying (player w)" "0 \<le> pauseOffset (player w)"
    by fastforce
  then show ?thesis
  proof cases
    case 1
    with c show ?thesis by (simp add: playBody_idle)
  next
    case 2
    with c show ?thesis
      by (simp add: playBody_rejected consistent_def consistentPC_def)
  next
    case 3
    with c show ?thesis
      by (simp add: playBody_started consistent_def consistentPC_def playNode_def)
  qed
qed

lemma consistent_resumed:
  "consistent w \<Longrightarrow> consistent (w\<lparr>audioContext := (audioContext w)\<lparr>ctx_state := Running\<rparr>\<rparr>)"
  by (simp add: consistent_def consistentPC_def)

lemma consistent_play: "consistent w \<Longrightarrow> consistent (snd (play a b lp w))"
  by (simp add: play_def consistent_playBody consistent_resumed split: resume_outcome.splits)

lemma consistent_pause:
  assumes c: "consistent w" shows "consistent (snd (pause w))"
proof (cases "isPlaying (player w)")
  case False
  with c show ?thesis by (simp add: pause_idle)
next
  case True
  with c obtain n where n: "source (player w) = Some n"
      "node_state (nodes (audioContext w) ! n) \<noteq> Unstarted"
    by (auto simp: consistent_def consistentPC_def)
  from c show ?thesis
    by (simp add: pause_playing [OF True n] consistent_def consistentPC_def)
qed

lemma consistent_stop:
  assumes c: "consistent w" shows "consistent (snd (stop w))"
proof (cases "source (player w)")
  case None
  with c show ?thesis by (simp add: stop_no_source consistent_def consistentPC_def)
next
  case (Some n)
  show ?thesis
  proof (cases "node_state (nodes (audioContext w) ! n) = Unstarted")
    case True
    with c Some show ?thesis by (simp add: stop_unstarted)
  next
    case False
    with c Some show ?thesis by (simp add: stop_source consistent_def consistentPC_def)
  qed
qed

lemma stop_not_playing: "fst (stop w) = None \<Longrightarrow> \<not> isPlaying (player (snd (stop w)))"
proof (cases "source (player w)")
  case None
  then show ?thesis by (simp add: stop_no_source)
next
  case (Some n)
  assume f: "fst (stop w) = None"
  show ?thesis
  proof (cases "node_state (nodes (audioContext w) ! n) = Unstarted")
    case True
    with Some f show ?thesis by (simp add: stop_unstarted)
  next
    case False
    with Some show ?thesis by (simp add: stop_source)
  qed
qed

lemma consistent_seek:
  assumes c: "consistent w" shows "consistent (snd (seek s w))"
proof -
  obtain e w1 where st: "stop w = (e, w1)" by (cases "stop w")
  have c1: "consistent w1" using consistent_stop [OF c] st by simp
  show ?thesis
  proof (cases e)
    case (Some x)
    with st c1 show ?thesis by (simp add: seek_def)
  next
    case None
    with st have np: "\<not> isPlaying (player w1)" using stop_not_playing [of w] by simp
    have c2: "consistent (w1\<lparr>player := (player w1)\<lparr>pauseOffset := s\<rparr>\<rparr>)"
      using c1 np by (simp add: consistent_def consistentPC_def)
    from None st c2 show ?thesis
      by (simp add: seek_def Let_def consistent_play)
  qed
qed

lemma consistent_node_state:
  assumes c: "consistent w" and s: "st \<noteq> Unstarted"
  shows "consistent (w\<lparr>audioContext := updNode n (\<lambda>x. x\<lparr>node_state := st\<rparr>) (audioContext w)\<rparr>)"
proof -
  have "node_state ((nodes (audioContext w))[n := (nodes (audioContext w) ! n)\<lparr>node_state := st\<rparr>] ! m)
          \<noteq> Unstarted" if "node_state (nodes (audioContext w) ! m) \<noteq> Unstarted" for m
    using that s by (cases "m = n"; cases "n < length (nodes (audioContext w))") (simp_all add: list_update_beyond)
  with c show ?thesis
    by (auto simp: consistent_def consistentPC_def updNode_def)
qed

lemma consistent_naturalEnd: "consistent w \<Longrightarrow> consistent (naturalEnd n w)"
  by (simp add: naturalEnd_def Let_def consistent_node_state)

lemma consistent_endedHandler: "consistent w \<Longrightarrow> consistent (endedHandler n cb w)"
proof -
  assume c: "consistent w"
  then have "consistent (w\<lparr>player := (player w)\<lparr>isPlaying := False\<rparr>\<rparr>)"
    by (simp add: consistent_def consistentPC_def)
  with c show ?thesis
    by (cases cb) (simp_all add: endedHandler_def Let_def consistent_def)
qed

lemma consistent_endedEvent: "consistent w \<Longrightarrow> consistent (endedEvent n w)"
  by (simp add: endedEvent_def Let_def consistent_endedHandler consistent_node_state
      split: option.splits)

lemma update_fields [simp]:
  "audioContext (update w) = audioContext w"
  "buffer (player (update w)) = buffer (player w)"
  "source (player (update w)) = source (player w)"
  "isPlaying (player (update w)) = isPlaying (player w)"
  "pauseOffset (player (update w)) = pauseOffset (player w)"
  "startTime (player (update w)) = startTime (player w)"
  "playbackRate (player (update w)) = playbackRate (player w)"
  "loop (player (update w)) = loop (player w)"
  "onEndedCb (player (update w)) = onEndedCb (player w)"
  "onProgressCb (player (update w)) = onProgressCb (player w)"
  "endedCalls (update w) = endedCalls w"
  by (simp_all add: update_def requestAnimationFrame_def Let_def split: option.splits bool.splits)

lemma consistent_animationFrame: "consistent w \<Longrightarrow> consistent (animationFrame i w)"
  by (simp add: animationFrame_def consistent_def consistentPC_def)

lemma consistent_advance: "consistent w \<Longrightarrow> consistent (advance dt w)"
  by (auto simp: advance_def consistent_def consistentPC_def)

lemma consistent_step: "consistent w \<Longrightarrow> consistent (step e w)"
  by (cases e)
     (simp_all add: consistent_load consistent_play consistent_pause consistent_stop
        consistent_seek consistent_setRate consistent_naturalEnd consistent_endedEvent
        consistent_animationFrame consistent_advance)

lemma consistent_run: "consistent w \<Longrightarrow> consistent (run es w)"
  by (induction es arbitrary: w) (simp_all add: consistent_step)

lemma consistent_reachable: "consistent (run es (newWorld c))"
  by (rule consistent_run [OF consistent_new])

section \<open>Pause and resume\<close>

lemma getCurrentTime_paused: "\<not> isPlaying (player w) \<Longrightarrow> getCurrentTime w = pauseOffset (player w)"
  by (simp add: getCurrentTime_def)

lemma getCurrentTime_playing:
  "isPlaying (player w) \<Longrightarrow> buffer (player w) = Some b \<Longrightarrow>
   getCurrentTime w =
     (if loop (player w)
      then js_rem (pauseOffset (player w)
             + (currentTime (audioContext w) - startTime (player w)) * playbackRate (player w))
             (duration b)
      else pauseOffset (player w)
             + (currentTime (audioContext w) - startTime (player w)) * playbackRate (player w))"
  by (simp add: getCurrentTime_def Let_def)

lemma play_available:
  "ctx_state (audioContext w) \<noteq> Suspended \<Longrightarrow> play a b lp w = playBody a b lp w"
  by (simp add: play_def)

lemma play_resumed:
  "ctx_state (audioContext w) = Suspended \<Longrightarrow> resumeSettles (audioContext w) = Resolves \<Longrightarrow>
   play a b lp w = playBody a b lp (w\<lparr>audioContext := (audioContext w)\<lparr>ctx_state := Running\<rparr>\<rparr>)"
  by (simp add: play_def)





lemma playingWorld_facts:
  "isPlaying (player playingWorld)"
  "pauseOffset (player playingWorld) = 0"
  "startTime (player playingWorld) = 0"
  "playbackRate (player playingWorld) = 1"
  "currentTime (audioContext playingWorld) = 1 / 48000"
  "ctx_state (audioContext playingWorld) = Running"
  "length (nodes (audioContext playingWorld)) = 1"
  by code_simp+




section \<open>Loading while a source plays\<close>

lemma load_eq:
  assumes "minRate (audioContext w) \<le> 24000" and "24000 \<le> maxRate (audioContext w)"
  shows "load bytes w =
     (if length bytes < 2 then (Some NotSupportedError, w)
      else (None, w\<lparr>player := (player w)\<lparr>buffer := Some \<lparr>sampleRate = 24000,
                 channelData = map (sampleAt bytes) [0..<length bytes div 2]\<rparr>,
               pauseOffset := 0\<rparr>\<rparr>))"
  using assms by (simp add: load_def rawPcmToAudioBuffer_eq)

text \<open>
  C2 (amended): on a context that supports 24000 Hz, \<^verbatim>\<open>load(bytes)\<close> with at least two bytes
  replaces the buffer wholesale by the decoded bytes and resets \<open>pauseOffset\<close> to 0; with
  fewer than two bytes it throws \<^verbatim>\<open>NotSupportedError\<close> and changes nothing. In both cases it
  leaves the audio context, the player's source and \<open>isPlaying\<close> as they are: it starts no
  source and stops none, so the number of sources that render does not change.
\<close>

theorem load_keeps_source:
  assumes "minRate (audioContext w) \<le> 24000" and "24000 \<le> maxRate (audioContext w)"
  shows "load bytes w =
     (if length bytes < 2 then (Some NotSupportedError, w)
      else (None, w\<lparr>player := (player w)\<lparr>buffer := Some \<lparr>sampleRate = 24000,
                 channelData = map (sampleAt bytes) [0..<length bytes div 2]\<rparr>,
               pauseOffset := 0\<rparr>\<rparr>))
    \<and> audioContext (snd (load bytes w)) = audioContext w
    \<and> activeSources (snd (load bytes w)) = activeSources w
    \<and> isPlaying (player (snd (load bytes w))) = isPlaying (player w)
    \<and> source (player (snd (load bytes w))) = source (player w)"
  unfolding load_eq [OF assms] by (simp add: activeSources_def)

text \<open>
  C2, as the specification states it, fails: \<^verbatim>\<open>load\<close> on a playing player does not stop
  the source. After the call the player still reports \<open>isPlaying\<close> and node 0 still renders.
\<close>

theorem load_leaves_source_playing:
  "isPlaying (player playingWorld)
   \<and> node_state (nodes (audioContext playingWorld) ! 0) = Started
   \<and> fst (load fiveBytes playingWorld) = None
   \<and> isPlaying (player (snd (load fiveBytes playingWorld)))
   \<and> node_state (nodes (audioContext (snd (load fiveBytes playingWorld))) ! 0) = Started"
  by code_simp

lemma playingWorld_rates:
  "minRate (audioContext playingWorld) \<le> 24000" "24000 \<le> maxRate (audioContext playingWorld)"
  "activeSources playingWorld = 1" "source (player playingWorld) = Some 0"
  by code_simp+

theorem load_keeps_source_witness:
  "fst (load fiveBytes playingWorld) = None
   \<and> buffer (player (snd (load fiveBytes playingWorld)))
        = Some \<lparr>sampleRate = 24000, channelData = [- 1, 32767 / 32768]\<rparr>
   \<and> pauseOffset (player (snd (load fiveBytes playingWorld))) = 0
   \<and> activeSources (snd (load fiveBytes playingWorld)) = 1
   \<and> isPlaying (player (snd (load fiveBytes playingWorld)))
   \<and> source (player (snd (load fiveBytes playingWorld))) = Some 0"
proof -
  have l: "length fiveBytes = 5" by (simp add: fiveBytes_def)
  note t = load_keeps_source [OF playingWorld_rates(1,2), of fiveBytes, unfolded l]
  have a: "fst (load fiveBytes playingWorld) = None"
    "buffer (player (snd (load fiveBytes playingWorld)))
        = Some \<lparr>sampleRate = 24000, channelData = [- 1, 32767 / 32768]\<rparr>"
    "pauseOffset (player (snd (load fiveBytes playingWorld))) = 0"
    using t [THEN conjunct1] by (simp_all add: fiveBytes_samples)
  have b: "activeSources (snd (load fiveBytes playingWorld)) = 1"
    "isPlaying (player (snd (load fiveBytes playingWorld)))"
    "source (player (snd (load fiveBytes playingWorld))) = Some 0"
    using t [THEN conjunct2] by (simp_all add: playingWorld_rates playingWorld_facts)
  from a b show ?thesis by (intro conjI)
qed

section \<open>Playing twice\<close>

lemma activeSources_append:
  "activeSources (w\<lparr>audioContext := (audioContext w)\<lparr>nodes := nodes (audioContext w) @ [x]\<rparr>\<rparr>)
     = activeSources w + (if node_state x = Started then 1 else 0)"
  by (simp add: activeSources_def)

lemma playBody_outcomes:
  "playBody a b lp w = (None, w) \<and> (buffer (player w) = None \<or> isPlaying (player w))
   \<or> fst (playBody a b lp w) = Some RangeError
       \<and> activeSources (snd (playBody a b lp w)) = activeSources w
       \<and> buffer (player (snd (playBody a b lp w))) \<noteq> None
       \<and> \<not> isPlaying (player (snd (playBody a b lp w)))
       \<and> pauseOffset (player (snd (playBody a b lp w))) < 0
   \<or> fst (playBody a b lp w) = None
       \<and> activeSources (snd (playBody a b lp w)) = activeSources w + 1
       \<and> isPlaying (player (snd (playBody a b lp w)))"
proof -
  consider "buffer (player w) = None \<or> isPlaying (player w)"
    | "buffer (player w) \<noteq> None" "\<not> isPlaying (player w)" "pauseOffset (player w) < 0"
    | "buffer (player w) \<noteq> None" "\<not> isPlaying (player w)" "0 \<le> pauseOffset (player w)"
    by fastforce
  then show ?thesis
  proof cases
    case 1
    then show ?thesis by (simp add: playBody_idle)
  next
    case 2
    then show ?thesis
      by (simp add: playBody_rejected activeSources_def playNode_def)
  next
    case 3
    then show ?thesis
      by (simp add: playBody_started activeSources_def playNode_def)
  qed
qed

lemma playBody_ctx_state [simp]:
  "ctx_state (audioContext (snd (playBody a b lp w))) = ctx_state (audioContext w)"
proof -
  consider "buffer (player w) = None \<or> isPlaying (player w)"
    | "buffer (player w) \<noteq> None" "\<not> isPlaying (player w)" "pauseOffset (player w) < 0"
    | "buffer (player w) \<noteq> None" "\<not> isPlaying (player w)" "0 \<le> pauseOffset (player w)"
    by fastforce
  then show ?thesis
    by cases (simp_all add: playBody_idle playBody_rejected playBody_started)
qed

lemma playBody_twice:
  "activeSources (snd (playBody a' b' lp' (snd (playBody a b lp w))))
     = activeSources (snd (playBody a b lp w))"
proof -
  let ?w1 = "snd (playBody a b lp w)"
  from playBody_outcomes [of a b lp w]
  consider (idle) "playBody a b lp w = (None, w)" "buffer (player w) = None \<or> isPlaying (player w)"
    | (rejected) "buffer (player ?w1) \<noteq> None" "\<not> isPlaying (player ?w1)"
        "pauseOffset (player ?w1) < 0"
    | (started) "isPlaying (player ?w1)"
    by blast
  then show ?thesis
  proof cases
    case idle
    then show ?thesis by (simp add: playBody_idle)
  next
    case rejected
    then show ?thesis
      by (simp add: playBody_rejected activeSources_def playNode_def)
  next
    case started
    then show ?thesis by (simp add: playBody_idle)
  qed
qed

lemma activeSources_resumed [simp]:
  "activeSources (w\<lparr>audioContext := (audioContext w)\<lparr>ctx_state := Running\<rparr>\<rparr>) = activeSources w"
  by (simp add: activeSources_def)

lemma playBody_le: "activeSources (snd (playBody a b lp w)) \<le> activeSources w + 1"
  using playBody_outcomes [of a b lp w] by auto

lemma play_twice:
  "activeSources (snd (play a' b' lp' (snd (play a b lp w)))) = activeSources (snd (play a b lp w))"
proof (cases "ctx_state (audioContext w) = Suspended")
  case False
  then show ?thesis by (simp add: play_available playBody_twice)
next
  case True
  show ?thesis
  proof (cases "resumeSettles (audioContext w)")
    case Resolves
    let ?w' = "w\<lparr>audioContext := (audioContext w)\<lparr>ctx_state := Running\<rparr>\<rparr>"
    have "play a b lp w = playBody a b lp ?w'" using True Resolves by (rule play_resumed)
    moreover have "ctx_state (audioContext (snd (playBody a b lp ?w'))) \<noteq> Suspended" by simp
    ultimately show ?thesis by (simp add: play_available playBody_twice)
  next
    case Rejects
    with True show ?thesis by (simp add: play_def)
  next
    case Pends
    with True show ?thesis by (simp add: play_def)
  qed
qed

lemma play_le: "activeSources (snd (play a b lp w)) \<le> activeSources w + 1"
proof (cases "ctx_state (audioContext w) = Suspended")
  case False
  then show ?thesis using playBody_le [of a b lp w] by (simp add: play_available)
next
  case True
  show ?thesis
  proof (cases "resumeSettles (audioContext w)")
    case Resolves
    let ?w' = "w\<lparr>audioContext := (audioContext w)\<lparr>ctx_state := Running\<rparr>\<rparr>"
    have "play a b lp w = playBody a b lp ?w'" using True Resolves by (rule play_resumed)
    then show ?thesis using playBody_le [of a b lp ?w'] by simp
  next
    case Rejects
    with True show ?thesis by (simp add: play_def)
  next
    case Pends
    with True show ?thesis by (simp add: play_def)
  qed
qed

text \<open>
  The guard of \<^verbatim>\<open>play\<close>: on a player whose \<open>isPlaying\<close> is set, or that has no buffer, the call
  changes no field of the player, creates no node, requests no frame and invokes no
  callback (it throws only when the context is suspended and \<^verbatim>\<open>resume()\<close> rejects); and for
  every player, a second \<^verbatim>\<open>play()\<close> right after a first, with no call and no event between
  them, adds no rendering source to what the first left.
\<close>

lemma play_guard:
  "(isPlaying (player w) \<or> buffer (player w) = None \<longrightarrow>
      player (snd (play a b lp w)) = player w
      \<and> nodes (audioContext (snd (play a b lp w))) = nodes (audioContext w)
      \<and> currentTime (audioContext (snd (play a b lp w))) = currentTime (audioContext w)
      \<and> frames (snd (play a b lp w)) = frames w
      \<and> nextFrame (snd (play a b lp w)) = nextFrame w
      \<and> endedCalls (snd (play a b lp w)) = endedCalls w
      \<and> progressCalls (snd (play a b lp w)) = progressCalls w
      \<and> activeSources (snd (play a b lp w)) = activeSources w
      \<and> fst (play a b lp w) =
          (if ctx_state (audioContext w) = Suspended \<and> resumeSettles (audioContext w) = Rejects
           then Some ResumeRejected else None))
   \<and> activeSources (snd (play a' b' lp' (snd (play a b lp w)))) = activeSources (snd (play a b lp w))
   \<and> activeSources (snd (play a' b' lp' (snd (play a b lp w)))) \<le> activeSources w + 1"
proof (intro conjI impI)
  assume idle: "isPlaying (player w) \<or> buffer (player w) = None"
  let ?w' = "w\<lparr>audioContext := (audioContext w)\<lparr>ctx_state := Running\<rparr>\<rparr>"
  have i': "playBody a b lp ?w' = (None, ?w')" using idle by (intro playBody_idle) auto
  have i: "playBody a b lp w = (None, w)" using idle by (intro playBody_idle) auto
  have p: "play a b lp w =
    (if ctx_state (audioContext w) = Suspended
     then (case resumeSettles (audioContext w) of Resolves \<Rightarrow> (None, ?w')
           | Rejects \<Rightarrow> (Some ResumeRejected, w) | Pends \<Rightarrow> (None, w))
     else (None, w))"
    by (simp add: play_def i i' split: resume_outcome.splits)
  show "player (snd (play a b lp w)) = player w"
    "nodes (audioContext (snd (play a b lp w))) = nodes (audioContext w)"
    "currentTime (audioContext (snd (play a b lp w))) = currentTime (audioContext w)"
    "frames (snd (play a b lp w)) = frames w"
    "nextFrame (snd (play a b lp w)) = nextFrame w"
    "endedCalls (snd (play a b lp w)) = endedCalls w"
    "progressCalls (snd (play a b lp w)) = progressCalls w"
    "activeSources (snd (play a b lp w)) = activeSources w"
    "fst (play a b lp w) =
          (if ctx_state (audioContext w) = Suspended \<and> resumeSettles (audioContext w) = Rejects
           then Some ResumeRejected else None)"
    unfolding p by (simp_all split: resume_outcome.splits)
next
  show "activeSources (snd (play a' b' lp' (snd (play a b lp w)))) = activeSources (snd (play a b lp w))"
    by (rule play_twice)
  then show "activeSources (snd (play a' b' lp' (snd (play a b lp w)))) \<le> activeSources w + 1"
    using play_le [of a b lp w] by simp
qed

text \<open>
  C6 fails on the code. The guard of \<^verbatim>\<open>play\<close> reads the flag \<open>isPlaying\<close>, and the flag can be
  false while a source of the player renders: the \<^verbatim>\<open>onended\<close> handler of a source that
  \<^verbatim>\<open>pause()\<close> has stopped is still installed, and when its event is delivered after the next
  \<^verbatim>\<open>play()\<close> it clears the flag of the new session. Evaluated: a \<^verbatim>\<open>play()\<close> right after a
  \<^verbatim>\<open>play()\<close> is refused and one source renders; after \<^verbatim>\<open>pause()\<close>, \<^verbatim>\<open>play()\<close> and the event of
  the stopped source, the player reports that it is not playing while one source renders;
  the \<^verbatim>\<open>play()\<close> that follows, with no \<^verbatim>\<open>pause()\<close> or \<^verbatim>\<open>stop()\<close> since the \<^verbatim>\<open>play()\<close> before it,
  starts a second source, and two render at once.
\<close>

theorem second_source_after_stale_ended_event:
  "activeSources (run [Load fiveBytes, Play None (Some 7) False, Advance (1 / 48000),
                       Play None (Some 7) False] (newWorld runningContext)) = 1
   \<and> isPlaying (player (run [Load fiveBytes, Play None (Some 7) False, Advance (1 / 48000),
                       Pause, Play None (Some 7) False] (newWorld runningContext)))
   \<and> activeSources (run [Load fiveBytes, Play None (Some 7) False, Advance (1 / 48000),
                       Pause, Play None (Some 7) False] (newWorld runningContext)) = 1
   \<and> \<not> isPlaying (player (run [Load fiveBytes, Play None (Some 7) False, Advance (1 / 48000),
                       Pause, Play None (Some 7) False, EndedEvent 0] (newWorld runningContext)))
   \<and> activeSources (run [Load fiveBytes, Play None (Some 7) False, Advance (1 / 48000),
                       Pause, Play None (Some 7) False, EndedEvent 0]
                      (newWorld runningContext)) = 1
   \<and> activeSources (run [Load fiveBytes, Play None (Some 7) False, Advance (1 / 48000),
                       Pause, Play None (Some 7) False, EndedEvent 0, Play None (Some 7) False]
                      (newWorld runningContext)) = 2"
  by code_simp

section \<open>Calls before any load\<close>

lemma unloaded_new: "unloaded (newWorld c)"
  by (simp add: unloaded_def newWorld_def newPlayer_def)

lemma unloaded_pause: "unloaded w \<Longrightarrow> pause w = (None, w)"
  by (simp add: unloaded_def pause_idle)

lemma unloaded_playBody: "unloaded w \<Longrightarrow> playBody a b lp w = (None, w)"
  by (simp add: unloaded_def playBody_idle)

lemma unloaded_resumed:
  "unloaded w \<Longrightarrow> unloaded (w\<lparr>audioContext := (audioContext w)\<lparr>ctx_state := Running\<rparr>\<rparr>)"
  by (simp add: unloaded_def)

lemma unloaded_play:
  assumes "unloaded w"
  shows "play a b lp w =
    (if ctx_state (audioContext w) = Suspended
     then (case resumeSettles (audioContext w) of
             Resolves \<Rightarrow> (None, w\<lparr>audioContext := (audioContext w)\<lparr>ctx_state := Running\<rparr>\<rparr>)
           | Rejects \<Rightarrow> (Some ResumeRejected, w)
           | Pends \<Rightarrow> (None, w))
     else (None, w))"
  using assms unloaded_playBody [OF unloaded_resumed [OF assms]]
  by (simp add: play_def unloaded_playBody split: resume_outcome.splits)

lemma unloaded_cancelProgress: "unloaded w \<Longrightarrow> cancelProgress w = w"
  by (simp add: unloaded_def cancelProgress_def)

lemma unloaded_stop:
  assumes "unloaded w"
  shows "stop w = (None, w\<lparr>player := (player w)\<lparr>pauseOffset := 0\<rparr>\<rparr>)"
proof -
  have s: "source (player w) = None" and i: "\<not> isPlaying (player w)"
    using assms by (simp_all add: unloaded_def)
  have e: "(player w)\<lparr>source := None, isPlaying := False, pauseOffset := 0\<rparr>
         = (player w)\<lparr>pauseOffset := 0\<rparr>"
    using s i by (cases "player w") simp
  have u: "unloaded (w\<lparr>player := (player w)\<lparr>pauseOffset := 0\<rparr>\<rparr>)"
    using assms by (simp add: unloaded_def)
  show ?thesis
    unfolding stop_no_source [OF s] e using unloaded_cancelProgress [OF u] by simp
qed

lemma unloaded_seek:
  assumes "unloaded w"
  shows "seek s w = (None, w\<lparr>player := (player w)\<lparr>pauseOffset := s\<rparr>\<rparr>)"
  using assms by (simp add: seek_def unloaded_stop unloaded_def)

lemma unloaded_setRate:
  assumes "unloaded w"
  shows "setRate r w = (None, w\<lparr>player := (player w)\<lparr>playbackRate := r\<rparr>\<rparr>)"
  using assms by (simp add: setRate_def unloaded_def)

lemma unloaded_step: "unloaded w \<Longrightarrow> \<not> isLoad e \<Longrightarrow> unloaded (step e w)"
proof (cases e)
  case (Play a b lp)
  assume u: "unloaded w"
  show ?thesis
    unfolding Play step.simps unloaded_play [OF u]
    using u by (simp add: unloaded_resumed split: resume_outcome.splits)
next
  case (AnimationFrame i)
  assume "unloaded w"
  then show ?thesis by (simp add: AnimationFrame animationFrame_def unloaded_def)
qed (simp_all add: unloaded_pause unloaded_stop unloaded_seek unloaded_setRate,
     simp_all add: unloaded_def naturalEnd_def endedEvent_def advance_def)

lemma unloaded_run: "unloaded w \<Longrightarrow> \<forall>e \<in> set es. \<not> isLoad e \<Longrightarrow> unloaded (run es w)"
  by (induction es arbitrary: w) (simp_all add: unloaded_step)

text \<open>
  C7 (amended): after any sequence of calls and events without a \<^verbatim>\<open>load\<close>, the player has
  no buffer, no source and is not playing, no node was created and no callback invoked;
  \<^verbatim>\<open>getDuration()\<close> is 0 and \<^verbatim>\<open>getCurrentTime()\<close> is \<open>pauseOffset\<close>; no call throws (apart
  from \<^verbatim>\<open>play\<close> when \<^verbatim>\<open>resume()\<close> of a suspended context rejects); \<^verbatim>\<open>pause\<close> and \<^verbatim>\<open>play\<close>
  leave the player as it is, while \<^verbatim>\<open>stop\<close> sets \<open>pauseOffset\<close> to 0, \<^verbatim>\<open>seek(s)\<close> sets it to
  \<open>s\<close> and \<^verbatim>\<open>setRate(r)\<close> sets \<open>playbackRate\<close> to \<open>r\<close>.
\<close>

theorem calls_before_load:
  assumes "w = run es (newWorld c)" and "\<forall>e \<in> set es. \<not> isLoad e"
  shows "buffer (player w) = None \<and> \<not> isPlaying (player w) \<and> source (player w) = None
    \<and> nodes (audioContext w) = [] \<and> frames w = []
    \<and> endedCalls w = [] \<and> progressCalls w = []
    \<and> getDuration w = 0
    \<and> getCurrentTime w = pauseOffset (player w)
    \<and> pause w = (None, w)
    \<and> stop w = (None, w\<lparr>player := (player w)\<lparr>pauseOffset := 0\<rparr>\<rparr>)
    \<and> seek s w = (None, w\<lparr>player := (player w)\<lparr>pauseOffset := s\<rparr>\<rparr>)
    \<and> setRate r w = (None, w\<lparr>player := (player w)\<lparr>playbackRate := r\<rparr>\<rparr>)
    \<and> play a b lp w =
        (if ctx_state (audioContext w) = Suspended
         then (case resumeSettles (audioContext w) of
                 Resolves \<Rightarrow> (None, w\<lparr>audioContext := (audioContext w)\<lparr>ctx_state := Running\<rparr>\<rparr>)
               | Rejects \<Rightarrow> (Some ResumeRejected, w)
               | Pends \<Rightarrow> (None, w))
         else (None, w))"
proof -
  have u: "unloaded w"
    unfolding assms(1) using unloaded_new assms(2) by (rule unloaded_run)
  then have "buffer (player w) = None \<and> \<not> isPlaying (player w) \<and> source (player w) = None
    \<and> nodes (audioContext w) = [] \<and> frames w = []
    \<and> endedCalls w = [] \<and> progressCalls w = []
    \<and> getDuration w = 0
    \<and> getCurrentTime w = pauseOffset (player w)"
    by (simp add: unloaded_def getDuration_def getCurrentTime_paused)
  with unloaded_pause [OF u] unloaded_stop [OF u] unloaded_seek [OF u, of s]
    unloaded_setRate [OF u, of r] unloaded_play [OF u, of a b lp]
  show ?thesis by (intro conjI) simp_all
qed

text \<open>
  C7, as the specification states it, fails: \<^verbatim>\<open>seek(5)\<close> on a new player changes the
  position it reports from 0 to 5, and a rate set before \<^verbatim>\<open>load\<close> is still in force after it.
\<close>

theorem seek_and_setRate_before_load_are_observable:
  "getCurrentTime (newWorld runningContext) = 0
   \<and> getCurrentTime (snd (seek 5 (newWorld runningContext))) = 5
   \<and> playbackRate (player (snd (load fiveBytes (newWorld runningContext)))) = 1
   \<and> playbackRate (player (snd (load fiveBytes (snd (setRate 2 (newWorld runningContext)))))) = 2"
  by code_simp

theorem calls_before_load_witness:
  "getCurrentTime (run [Seek 5, Play None None False, SetRate 2, Pause] (newWorld runningContext)) = 5
   \<and> getDuration (run [Seek 5, Play None None False, SetRate 2, Pause] (newWorld runningContext)) = 0
   \<and> fst (stop (run [Seek 5, Play None None False, SetRate 2, Pause] (newWorld runningContext))) = None
   \<and> pauseOffset (player (snd (stop (run [Seek 5, Play None None False, SetRate 2, Pause]
        (newWorld runningContext))))) = 0
   \<and> playbackRate (player (snd (setRate 3 (run [Seek 5, Play None None False, SetRate 2, Pause]
        (newWorld runningContext))))) = 3"
proof -
  let ?es = "[Seek 5, Play None None False, SetRate 2, Pause]"
  have n: "\<forall>e \<in> set ?es. \<not> isLoad e" by simp
  have p: "pauseOffset (player (run ?es (newWorld runningContext))) = 5" by code_simp
  note t = calls_before_load [OF refl n, of runningContext 0 3 None None False]
  from t p show ?thesis by simp
qed

section \<open>The reported position\<close>

text \<open>
  The remainder of JavaScript by a positive divisor differs from its dividend by a whole
  multiple of the divisor, is smaller than the divisor in absolute value, and has the
  sign of the dividend.
\<close>

lemma floor_times:
  assumes "0 < (d::real)"
  shows "of_int \<lfloor>t / d\<rfloor> * d \<le> t" and "t < (of_int \<lfloor>t / d\<rfloor> + 1) * d"
proof -
  have "real_of_int \<lfloor>t / d\<rfloor> \<le> t / d" by (rule of_int_floor_le)
  then show "of_int \<lfloor>t / d\<rfloor> * d \<le> t" using assms by (simp only: pos_le_divide_eq)
  have "t / d < real_of_int \<lfloor>t / d\<rfloor> + 1" by (rule real_of_int_floor_add_one_gt)
  then show "t < (of_int \<lfloor>t / d\<rfloor> + 1) * d" using assms by (simp only: pos_divide_less_eq)
qed

lemma ceiling_times:
  assumes "0 < (d::real)"
  shows "t \<le> of_int \<lceil>t / d\<rceil> * d" and "(of_int \<lceil>t / d\<rceil> - 1) * d < t"
proof -
  have "t / d \<le> real_of_int \<lceil>t / d\<rceil>" by (rule le_of_int_ceiling)
  then show "t \<le> of_int \<lceil>t / d\<rceil> * d" using assms by (simp only: pos_divide_le_eq)
  have "real_of_int \<lceil>t / d\<rceil> - 1 < t / d" by (rule ceiling_correct [THEN conjunct1])
  then show "(of_int \<lceil>t / d\<rceil> - 1) * d < t" using assms by (simp only: pos_less_divide_eq)
qed

lemma js_rem_bounds:
  assumes d: "0 < d"
  shows "\<bar>js_rem t d\<bar> < d" and "0 \<le> t \<Longrightarrow> 0 \<le> js_rem t d" and "t \<le> 0 \<Longrightarrow> js_rem t d \<le> 0"
proof -
  note f = floor_times [OF d, of t] and c = ceiling_times [OF d, of t]
  have fl: "0 \<le> t - d * of_int \<lfloor>t / d\<rfloor>" "t - d * of_int \<lfloor>t / d\<rfloor> < d"
    using f by (simp_all add: algebra_simps)
  have ce: "t - d * of_int \<lceil>t / d\<rceil> \<le> 0" "- d < t - d * of_int \<lceil>t / d\<rceil>"
    using c by (simp_all add: algebra_simps)
  show "\<bar>js_rem t d\<bar> < d"
    using fl ce by (simp add: js_rem_def)
  show "0 \<le> js_rem t d" if "0 \<le> t"
  proof -
    from that d have "0 \<le> t / d" by simp
    with fl show ?thesis by (simp add: js_rem_def)
  qed
  show "js_rem t d \<le> 0" if "t \<le> 0"
  proof (cases "0 \<le> t / d")
    case True
    with that d have "t = 0" by (simp add: zero_le_divide_iff)
    then show ?thesis by (simp add: js_rem_def)
  next
    case False
    with ce show ?thesis by (simp add: js_rem_def)
  qed
qed

lemma js_rem_multiple: "\<exists>k::int. t = of_int k * d + js_rem t d"
proof
  show "t = of_int (if 0 \<le> t / d then \<lfloor>t / d\<rfloor> else \<lceil>t / d\<rceil>) * d + js_rem t d"
    by (simp add: js_rem_def)
qed

lemma js_rem_example: "js_rem 12 10 = 2"
  by (simp add: js_rem_def)

lemma consistent_duration:
  assumes "consistent w" and "buffer (player w) = Some b"
  shows "0 < duration b"
proof -
  from assms have "channelData b \<noteq> []" "sampleRate b = 24000"
    by (simp_all add: consistent_def consistentPC_def)
  then show ?thesis by (simp add: duration_def)
qed

text \<open>
  C4: for a player reached by any sequence of calls and events, \<^verbatim>\<open>getCurrentTime()\<close> returns
  \<open>pauseOffset\<close> verbatim when \<open>isPlaying\<close> is false; when it is true, a buffer of positive
  duration is loaded and the result is \<open>t = pauseOffset + (now - startTime) * playbackRate\<close>,
  reduced modulo the duration of the buffer exactly when \<open>loop\<close> is set: the reduced value
  differs from \<open>t\<close> by a whole multiple of the duration, is smaller than the duration in
  absolute value and is not negative when \<open>t\<close> is not. The witness is the example of the
  specification: 12 s into a looping buffer of 10 s the position is 2.
\<close>

theorem getCurrentTime_position:
  assumes reach: "w = run es (newWorld c)"
    and t: "t = pauseOffset (player w)
               + (currentTime (audioContext w) - startTime (player w)) * playbackRate (player w)"
  shows "(\<not> isPlaying (player w) \<longrightarrow> getCurrentTime w = pauseOffset (player w))
    \<and> (isPlaying (player w) \<longrightarrow>
         (\<exists>b. buffer (player w) = Some b \<and> 0 < duration b
            \<and> getCurrentTime w = (if loop (player w) then js_rem t (duration b) else t)
            \<and> (\<exists>k::int. t = of_int k * duration b + js_rem t (duration b))
            \<and> \<bar>js_rem t (duration b)\<bar> < duration b
            \<and> (0 \<le> t \<longrightarrow> 0 \<le> js_rem t (duration b))))"
proof (intro conjI impI)
  assume "\<not> isPlaying (player w)"
  then show "getCurrentTime w = pauseOffset (player w)" by (rule getCurrentTime_paused)
next
  assume playing: "isPlaying (player w)"
  have c: "consistent w" unfolding reach by (rule consistent_reachable)
  with playing obtain b where b: "buffer (player w) = Some b"
    by (auto simp: consistent_def consistentPC_def)
  have d: "0 < duration b" using c b by (rule consistent_duration)
  have g: "getCurrentTime w = (if loop (player w) then js_rem t (duration b) else t)"
    unfolding t by (rule getCurrentTime_playing [OF playing b])
  from b d g js_rem_multiple [of t "duration b"] js_rem_bounds(1,2) [OF d, of t]
  show "\<exists>b. buffer (player w) = Some b \<and> 0 < duration b
            \<and> getCurrentTime w = (if loop (player w) then js_rem t (duration b) else t)
            \<and> (\<exists>k::int. t = of_int k * duration b + js_rem t (duration b))
            \<and> \<bar>js_rem t (duration b)\<bar> < duration b
            \<and> (0 \<le> t \<longrightarrow> 0 \<le> js_rem t (duration b))"
    by blast
qed

lemma tenSeconds_length: "length tenSeconds = 480000"
  by (simp add: tenSeconds_def)

lemma loopingWorld_eq:
  "loopingWorld =
     \<lparr>player = \<lparr>buffer = Some \<lparr>sampleRate = 24000,
                    channelData = map (sampleAt tenSeconds) [0..<240000]\<rparr>,
                source = Some 0, isPlaying = True, playbackRate = 1, pauseOffset = 0,
                startTime = 0, onProgressCb = None, onEndedCb = None, loop = True,
                animationFrameId = Some 1\<rparr>,
       audioContext = \<lparr>ctx_state = Running, currentTime = 12,
          nodes = [\<lparr>node_buffer = Some \<lparr>sampleRate = 24000,
                       channelData = map (sampleAt tenSeconds) [0..<240000]\<rparr>,
                    node_rate = 1, node_loop = True, node_connected = True,
                    node_onended = Some None, node_offset = 0, node_state = Started\<rparr>],
          minRate = 8000, maxRate = 96000, resumeSettles = Resolves\<rparr>,
       frames = [1], nextFrame = 2, endedCalls = [], progressCalls = []\<rparr>"
proof -
  let ?w0 = "newWorld runningContext"
  let ?b = "\<lparr>sampleRate = 24000, channelData = map (sampleAt tenSeconds) [0..<240000]\<rparr>"
  have r: "minRate (audioContext ?w0) \<le> 24000" "24000 \<le> maxRate (audioContext ?w0)"
    by (simp_all add: newWorld_def runningContext_def)
  have l: "load tenSeconds ?w0 = (None, ?w0\<lparr>player := (player ?w0)\<lparr>buffer := Some ?b, pauseOffset := 0\<rparr>\<rparr>)"
    unfolding load_eq [OF r] tenSeconds_length by simp
  let ?w1 = "?w0\<lparr>player := (player ?w0)\<lparr>buffer := Some ?b, pauseOffset := 0\<rparr>\<rparr>"
  have p: "play None None True ?w1 = playBody None None True ?w1"
    by (rule play_available) (simp add: newWorld_def runningContext_def)
  have pre: "buffer (player ?w1) \<noteq> None" "\<not> isPlaying (player ?w1)" "0 \<le> pauseOffset (player ?w1)"
    by (simp_all add: newWorld_def newPlayer_def)
  show ?thesis
    unfolding loopingWorld_def run.simps step.simps l snd_conv p playBody_started [OF pre]
    by (simp add: advance_def newWorld_def newPlayer_def runningContext_def playNode_def)
qed

theorem getCurrentTime_position_witness:
  "isPlaying (player loopingWorld) \<and> loop (player loopingWorld)
   \<and> getCurrentTime loopingWorld = 2
   \<and> \<not> isPlaying (player (snd (pause loopingWorld)))
   \<and> getCurrentTime (snd (pause loopingWorld)) = 12"
proof -
  let ?b = "\<lparr>sampleRate = 24000, channelData = map (sampleAt tenSeconds) [0..<240000]\<rparr>"
  have f: "isPlaying (player loopingWorld)" "loop (player loopingWorld)"
    "buffer (player loopingWorld) = Some ?b"
    "(12::real) = pauseOffset (player loopingWorld)
               + (currentTime (audioContext loopingWorld) - startTime (player loopingWorld))
                 * playbackRate (player loopingWorld)"
    by (simp_all add: loopingWorld_eq)
  have d: "duration ?b = 10" by (simp add: duration_def)
  note t = getCurrentTime_position [OF loopingWorld_def f(4)]
  from t f d have a: "getCurrentTime loopingWorld = 2"
    by (auto simp: js_rem_example)
  have s: "source (player loopingWorld) = Some 0"
    "node_state (nodes (audioContext loopingWorld) ! 0) \<noteq> Unstarted"
    by (simp_all add: loopingWorld_eq)
  have q: "snd (pause loopingWorld) = run [Load tenSeconds, Play None None True, Advance 12, Pause]
             (newWorld runningContext)"
    by (simp add: loopingWorld_def)
  have np: "\<not> isPlaying (player (snd (pause loopingWorld)))"
    "pauseOffset (player (snd (pause loopingWorld))) = 12"
    unfolding pause_playing [OF f(1) s] by (simp_all add: loopingWorld_eq)
  note t2 = getCurrentTime_position [OF q refl]
  from t2 np have b: "getCurrentTime (snd (pause loopingWorld)) = 12" by simp
  from f a np b show ?thesis by (intro conjI)
qed

section \<open>Seeking\<close>

lemma stop_started:
  assumes "case source (player w) of None \<Rightarrow> True
           | Some k \<Rightarrow> node_state (nodes (audioContext w) ! k) \<noteq> Unstarted"
  shows "\<exists>c'. stop w = (None, cancelProgress
           (w\<lparr>player := (player w)\<lparr>source := None, isPlaying := False, pauseOffset := 0\<rparr>,
              audioContext := c'\<rparr>))
         \<and> c' = (case source (player w) of None \<Rightarrow> audioContext w
                  | Some k \<Rightarrow> halted k (audioContext w))"
proof (cases "source (player w)")
  case None
  then show ?thesis by (simp add: stop_no_source)
next
  case (Some k)
  with assms show ?thesis by (simp add: stop_source)
qed

text \<open>
  C5 (amended): for a player reached by any sequence of calls and events whose source, if
  any, has been started, on a context that is running or resumes, \<^verbatim>\<open>seek(s)\<close> does not
  throw, stops the player's source and sets \<open>pauseOffset\<close> to exactly \<open>s\<close>, without clamping.
  When the player was not playing it stays stopped, no node is created, and
  \<^verbatim>\<open>getCurrentTime()\<close> returns \<open>s\<close>. When it was playing and \<open>s\<close> is not negative, playback
  restarts at once on a new source started at offset \<open>s\<close>, with the callbacks and the loop
  flag registered before, and \<^verbatim>\<open>getCurrentTime()\<close> returns \<open>s\<close>, or \<open>s\<close> modulo the duration
  when looping. When it was playing and \<open>s\<close> is negative, \<^verbatim>\<open>start\<close> rejects the offset: the
  player is left stopped at offset \<open>s\<close> with a source that was never started.
\<close>

theorem seek_outcome:
  assumes reach: "w = run es (newWorld c)"
    and started: "case source (player w) of None \<Rightarrow> True
                  | Some k \<Rightarrow> node_state (nodes (audioContext w) ! k) \<noteq> Unstarted"
    and ctx: "ctx_state (audioContext w) = Suspended \<longrightarrow> resumeSettles (audioContext w) = Resolves"
    and res: "w' = snd (seek s w)"
    and new: "n = length (nodes (audioContext w))"
  shows "fst (seek s w) = None
    \<and> pauseOffset (player w') = s
    \<and> (case source (player w) of None \<Rightarrow> True
        | Some k \<Rightarrow> node_state (nodes (audioContext w') ! k) \<noteq> Started)
    \<and> (\<not> isPlaying (player w) \<longrightarrow>
          \<not> isPlaying (player w') \<and> source (player w') = None
          \<and> length (nodes (audioContext w')) = n \<and> getCurrentTime w' = s)
    \<and> (isPlaying (player w) \<and> 0 \<le> s \<longrightarrow>
          isPlaying (player w') \<and> source (player w') = Some n
          \<and> length (nodes (audioContext w')) = n + 1
          \<and> node_state (nodes (audioContext w') ! n) = Started
          \<and> node_offset (nodes (audioContext w') ! n) = s
          \<and> node_loop (nodes (audioContext w') ! n) = loop (player w)
          \<and> node_onended (nodes (audioContext w') ! n) = Some (onEndedCb (player w))
          \<and> onProgressCb (player w') = onProgressCb (player w)
          \<and> onEndedCb (player w') = onEndedCb (player w)
          \<and> loop (player w') = loop (player w)
          \<and> startTime (player w') = currentTime (audioContext w')
          \<and> (\<exists>b. buffer (player w) = Some b
                \<and> getCurrentTime w' = (if loop (player w) then js_rem s (duration b) else s)))
    \<and> (isPlaying (player w) \<and> s < 0 \<longrightarrow>
          \<not> isPlaying (player w') \<and> source (player w') = Some n
          \<and> node_state (nodes (audioContext w') ! n) = Unstarted
          \<and> getCurrentTime w' = s)"
proof -
  have c: "consistent w" unfolding reach by (rule consistent_reachable)
  from stop_started [OF started] obtain c' where
    st: "stop w = (None, cancelProgress
           (w\<lparr>player := (player w)\<lparr>source := None, isPlaying := False, pauseOffset := 0\<rparr>,
              audioContext := c'\<rparr>))"
    and c': "c' = (case source (player w) of None \<Rightarrow> audioContext w
                  | Some k \<Rightarrow> halted k (audioContext w))"
    by blast
  define w2 where "w2 = (cancelProgress
           (w\<lparr>player := (player w)\<lparr>source := None, isPlaying := False, pauseOffset := 0\<rparr>,
              audioContext := c'\<rparr>))\<lparr>player := (player w)\<lparr>source := None, isPlaying := False,
                 pauseOffset := s\<rparr>\<rparr>"
  have sk: "seek s w = (if isPlaying (player w)
       then (None, snd (play (onProgressCb (player w)) (onEndedCb (player w)) (loop (player w)) w2))
       else (None, w2))"
    by (simp add: seek_def st w2_def)
  have w2: "player w2 = (player w)\<lparr>source := None, isPlaying := False, pauseOffset := s\<rparr>"
    "audioContext w2 = c'"
    by (simp_all add: w2_def)
  have len: "length (nodes c') = n" by (simp add: c' new split: option.splits)
  have cs: "ctx_state c' = ctx_state (audioContext w)" "resumeSettles c' = resumeSettles (audioContext w)"
    "currentTime c' = currentTime (audioContext w)"
    by (simp_all add: c' split: option.splits)
  have old: "case source (player w) of None \<Rightarrow> True
        | Some k \<Rightarrow> k < n \<and> node_state (nodes c' ! k) \<noteq> Started"
  proof (cases "source (player w)")
    case None
    then show ?thesis by simp
  next
    case (Some k)
    with c have "k < length (nodes (audioContext w))" by (simp add: consistent_def consistentPC_def)
    with Some show ?thesis by (simp add: c' new halted_node_state)
  qed
  have a1: "fst (seek s w) = None" by (simp add: sk)
  show ?thesis
  proof (cases "isPlaying (player w)")
    case False
    then have e: "w' = w2" by (simp add: res sk)
    from False old show ?thesis
      unfolding a1 e by (simp add: w2 len getCurrentTime_paused split: option.splits)
  next
    case True
    with c obtain b where b: "buffer (player w) = Some b" by (auto simp: consistent_def consistentPC_def)
    let ?a = "onProgressCb (player w)" and ?e = "onEndedCb (player w)" and ?l = "loop (player w)"
    let ?w2' = "w2\<lparr>audioContext := (audioContext w2)\<lparr>ctx_state := Running\<rparr>\<rparr>"
    define w3 where "w3 = (if ctx_state c' = Suspended then ?w2' else w2)"
    have pl: "play ?a ?e ?l w2 = playBody ?a ?e ?l w3"
    proof (cases "ctx_state c' = Suspended")
      case True
      with ctx cs have "resumeSettles (audioContext w2) = Resolves" by (simp add: w2)
      with True show ?thesis by (simp add: w3_def play_resumed w2)
    next
      case False
      then show ?thesis by (simp add: w3_def play_available w2)
    qed
    have w3: "player w3 = player w2" "nodes (audioContext w3) = nodes c'"
      "currentTime (audioContext w3) = currentTime c'"
      by (simp_all add: w3_def w2)
    have e: "w' = snd (playBody ?a ?e ?l w3)" using True by (simp add: res sk pl)
    have pre: "buffer (player w3) \<noteq> None" "\<not> isPlaying (player w3)"
      by (simp_all add: w3 w2 b)
    show ?thesis
    proof (cases "0 \<le> s")
      case nonneg: True
      then have p3: "0 \<le> pauseOffset (player w3)" by (simp add: w3 w2)
      have g: "getCurrentTime w' = (if loop (player w) then js_rem s (duration b) else s)"
        unfolding e playBody_started [OF pre p3]
        by (simp add: getCurrentTime_def Let_def w3 w2 b)
      from True nonneg old g b show ?thesis
        unfolding a1 e playBody_started [OF pre p3]
        by (simp add: w3 w2 len nth_append playNode_def split: option.splits)
    next
      case neg: False
      then have p3: "pauseOffset (player w3) < 0" by (simp add: w3 w2)
      from True neg old show ?thesis
        unfolding a1 e playBody_rejected [OF pre p3]
        by (simp add: w3 w2 len nth_append playNode_def getCurrentTime_paused split: option.splits)
    qed
  qed
qed

lemma seek_looping_example:
  "isPlaying (player loopingWorld) \<and> loop (player loopingWorld)
   \<and> isPlaying (player (snd (seek 12 loopingWorld)))
   \<and> pauseOffset (player (snd (seek 12 loopingWorld))) = 12
   \<and> getCurrentTime (snd (seek 12 loopingWorld)) = 2"
proof -
  let ?b = "\<lparr>sampleRate = 24000, channelData = map (sampleAt tenSeconds) [0..<240000]\<rparr>"
  have s: "source (player loopingWorld) = Some 0"
    "node_state (nodes (audioContext loopingWorld) ! 0) \<noteq> Unstarted"
    by (simp_all add: loopingWorld_eq)
  define w2 where "w2 = snd (stop loopingWorld)\<lparr>player :=
      (player (snd (stop loopingWorld)))\<lparr>pauseOffset := 12\<rparr>\<rparr>"
  have f: "buffer (player w2) = Some ?b" "\<not> isPlaying (player w2)" "pauseOffset (player w2) = 12"
    "ctx_state (audioContext w2) \<noteq> Suspended" "loop (player w2)"
    "currentTime (audioContext w2) = 12" "playbackRate (player w2) = 1"
    unfolding w2_def stop_source [OF s] by (simp_all add: loopingWorld_eq)
  have pre: "buffer (player w2) \<noteq> None" "\<not> isPlaying (player w2)" "0 \<le> pauseOffset (player w2)"
    using f by simp_all
  have sk: "snd (seek 12 loopingWorld)
     = snd (playBody (onProgressCb (player w2)) (onEndedCb (player w2)) (loop (player w2)) w2)"
    unfolding seek_def Let_def stop_source [OF s] w2_def
    using f(4) [unfolded w2_def stop_source [OF s]]
    by (simp add: loopingWorld_eq play_available)
  have d: "duration ?b = 10" by (simp add: duration_def)
  have "isPlaying (player (snd (seek 12 loopingWorld)))"
    "pauseOffset (player (snd (seek 12 loopingWorld))) = 12"
    "getCurrentTime (snd (seek 12 loopingWorld)) = 2"
    unfolding sk playBody_started [OF pre]
    by (simp_all add: f getCurrentTime_def Let_def d js_rem_example)
  then show ?thesis by (simp add: loopingWorld_eq)
qed

text \<open>
  C5, as the specification states it, fails for a negative argument: \<^verbatim>\<open>seek(-1)\<close> on a
  playing player leaves it stopped, with no source rendering. It also fails beyond the
  duration of a looping buffer: after \<^verbatim>\<open>seek(12)\<close> on the player that loops over ten seconds,
  \<^verbatim>\<open>getCurrentTime()\<close> returns 2, not 12.
\<close>

theorem seek_negative_or_beyond_duration:
  "isPlaying (player playingWorld)
   \<and> fst (seek (- 1) playingWorld) = None
   \<and> \<not> isPlaying (player (snd (seek (- 1) playingWorld)))
   \<and> activeSources (snd (seek (- 1) playingWorld)) = 0
   \<and> isPlaying (player loopingWorld) \<and> loop (player loopingWorld)
   \<and> isPlaying (player (snd (seek 12 loopingWorld)))
   \<and> pauseOffset (player (snd (seek 12 loopingWorld))) = 12
   \<and> getCurrentTime (snd (seek 12 loopingWorld)) = 2"
proof -
  have "isPlaying (player playingWorld)
   \<and> fst (seek (- 1) playingWorld) = None
   \<and> \<not> isPlaying (player (snd (seek (- 1) playingWorld)))
   \<and> activeSources (snd (seek (- 1) playingWorld)) = 0"
    by code_simp
  with seek_looping_example show ?thesis by blast
qed

lemma playingWorld_source:
  "case source (player playingWorld) of None \<Rightarrow> True
   | Some k \<Rightarrow> node_state (nodes (audioContext playingWorld) ! k) \<noteq> Unstarted"
  "ctx_state (audioContext playingWorld) = Suspended \<longrightarrow>
     resumeSettles (audioContext playingWorld) = Resolves"
  "loop (player playingWorld) = False"
  "onEndedCb (player playingWorld) = Some 7"
  by code_simp+

theorem seek_outcome_witness:
  "isPlaying (player playingWorld)
   \<and> fst (seek (1 / 96000) playingWorld) = None
   \<and> pauseOffset (player (snd (seek (1 / 96000) playingWorld))) = 1 / 96000
   \<and> node_state (nodes (audioContext (snd (seek (1 / 96000) playingWorld))) ! 0) \<noteq> Started
   \<and> isPlaying (player (snd (seek (1 / 96000) playingWorld)))
   \<and> node_state (nodes (audioContext (snd (seek (1 / 96000) playingWorld))) ! 1) = Started
   \<and> node_offset (nodes (audioContext (snd (seek (1 / 96000) playingWorld))) ! 1) = 1 / 96000
   \<and> node_onended (nodes (audioContext (snd (seek (1 / 96000) playingWorld))) ! 1) = Some (Some 7)
   \<and> getCurrentTime (snd (seek (1 / 96000) playingWorld)) = 1 / 96000
   \<and> getCurrentTime (snd (seek 12 loopingWorld)) = 2"
proof -
  note t = seek_outcome [OF playingWorld_def playingWorld_source(1,2) refl
             playingWorld_facts(7) [symmetric], of "1 / 96000"]
  have a: "isPlaying (player playingWorld)"
   "fst (seek (1 / 96000) playingWorld) = None"
   "pauseOffset (player (snd (seek (1 / 96000) playingWorld))) = 1 / 96000"
   "node_state (nodes (audioContext (snd (seek (1 / 96000) playingWorld))) ! 0) \<noteq> Started"
   "isPlaying (player (snd (seek (1 / 96000) playingWorld)))"
   "node_state (nodes (audioContext (snd (seek (1 / 96000) playingWorld))) ! 1) = Started"
   "node_offset (nodes (audioContext (snd (seek (1 / 96000) playingWorld))) ! 1) = 1 / 96000"
   "node_onended (nodes (audioContext (snd (seek (1 / 96000) playingWorld))) ! 1) = Some (Some 7)"
   "getCurrentTime (snd (seek (1 / 96000) playingWorld)) = 1 / 96000"
    using t playingWorld_facts(1) playingWorld_rates(4) playingWorld_source(3,4)
    by auto
  let ?b = "\<lparr>sampleRate = 24000, channelData = map (sampleAt tenSeconds) [0..<240000]\<rparr>"
  have l: "case source (player loopingWorld) of None \<Rightarrow> True
     | Some k \<Rightarrow> node_state (nodes (audioContext loopingWorld) ! k) \<noteq> Unstarted"
    "ctx_state (audioContext loopingWorld) = Suspended \<longrightarrow>
       resumeSettles (audioContext loopingWorld) = Resolves"
    "isPlaying (player loopingWorld)" "loop (player loopingWorld)"
    "buffer (player loopingWorld) = Some ?b"
    by (simp_all add: loopingWorld_eq)
  have d: "duration ?b = 10" by (simp add: duration_def)
  note u = seek_outcome [OF loopingWorld_def l(1,2) refl refl, of 12]
  from u l d have b: "getCurrentTime (snd (seek 12 loopingWorld)) = 2"
    by (auto simp: js_rem_example)
  from a b show ?thesis by (intro conjI)
qed

section \<open>The end callback\<close>

lemma endedCalls_playBody [simp]: "endedCalls (snd (playBody a b lp w)) = endedCalls w"
proof -
  consider "buffer (player w) = None \<or> isPlaying (player w)"
    | "buffer (player w) \<noteq> None" "\<not> isPlaying (player w)" "pauseOffset (player w) < 0"
    | "buffer (player w) \<noteq> None" "\<not> isPlaying (player w)" "0 \<le> pauseOffset (player w)"
    by fastforce
  then show ?thesis
    by cases (simp_all add: playBody_idle playBody_rejected playBody_started)
qed

lemma endedCalls_play [simp]: "endedCalls (snd (play a b lp w)) = endedCalls w"
  by (simp add: play_def split: resume_outcome.splits)

lemma endedCalls_stop [simp]: "endedCalls (snd (stop w)) = endedCalls w"
  by (simp add: stop_def Let_def split: option.splits sum.splits)

lemma endedCalls_pause [simp]: "endedCalls (snd (pause w)) = endedCalls w"
  by (simp add: pause_def Let_def split: option.splits sum.splits)

lemma endedCalls_seek [simp]: "endedCalls (snd (seek s w)) = endedCalls w"
proof -
  obtain e w1 where st: "stop w = (e, w1)" by (cases "stop w")
  then have "endedCalls w1 = endedCalls w" using endedCalls_stop [of w] by simp
  with st show ?thesis by (cases e) (simp_all add: seek_def Let_def)
qed

lemma endedCalls_load [simp]: "endedCalls (snd (load bytes w)) = endedCalls w"
  by (simp add: load_def split: sum.splits)

lemma endedCalls_setRate [simp]: "endedCalls (snd (setRate r w)) = endedCalls w"
  by (simp add: setRate_def Let_def split: option.splits)

text \<open>
  No call of the interface invokes an end callback, and neither do the natural end of a
  source, a frame or the clock: only the delivery of an \<^verbatim>\<open>ended\<close> event does, once for
  the node it is delivered to, when the loop flag of the player is not set at that moment.
\<close>

lemma endedCalls_step:
  "endedCalls (step e w) =
     (case e of
        EndedEvent n \<Rightarrow>
          (if n < length (nodes (audioContext w))
              \<and> node_state (nodes (audioContext w) ! n) = Finished \<and> \<not> loop (player w)
           then (case node_onended (nodes (audioContext w) ! n) of
                   Some (Some cb) \<Rightarrow> endedCalls w @ [(n, cb)]
                 | _ \<Rightarrow> endedCalls w)
           else endedCalls w)
      | _ \<Rightarrow> endedCalls w)"
  by (cases e)
     (simp_all add: naturalEnd_def animationFrame_def advance_def endedEvent_def endedHandler_def
        Let_def split: option.splits)

lemma grows_refl [simp]: "grows c c"
  by (simp add: grows_def)

lemma grows_trans: "grows c c' \<Longrightarrow> grows c' c'' \<Longrightarrow> grows c c''"
  by (auto simp: grows_def)

lemma grows_resumed [simp]: "grows c (c\<lparr>ctx_state := s\<rparr>)" "grows c (c\<lparr>currentTime := t\<rparr>)"
  by (simp_all add: grows_def)

lemma grows_append [simp]: "grows c (c\<lparr>nodes := nodes c @ [x]\<rparr>)"
  by (simp add: grows_def nth_append)

lemma grows_updNode:
  assumes "node_state (nodes c ! n) = Dispatched \<longrightarrow> node_state (f (nodes c ! n)) = Dispatched"
  shows "grows c (updNode n f c)"
proof -
  have "node_state ((nodes c)[n := f (nodes c ! n)] ! m) = Dispatched"
    if "m < length (nodes c)" "node_state (nodes c ! m) = Dispatched" for m
    using that assms by (cases "m = n") simp_all
  then show ?thesis by (simp add: grows_def updNode_def)
qed

lemma grows_halted [simp]: "grows c (halted n c)"
  by (simp add: halted_def grows_updNode)

lemma grows_playBody: "grows (audioContext w) (audioContext (snd (playBody a b lp w)))"
proof -
  consider "buffer (player w) = None \<or> isPlaying (player w)"
    | "buffer (player w) \<noteq> None" "\<not> isPlaying (player w)" "pauseOffset (player w) < 0"
    | "buffer (player w) \<noteq> None" "\<not> isPlaying (player w)" "0 \<le> pauseOffset (player w)"
    by fastforce
  then show ?thesis
    by cases (simp_all add: playBody_idle playBody_rejected playBody_started)
qed

lemma grows_play: "grows (audioContext w) (audioContext (snd (play a b lp w)))"
proof (cases "ctx_state (audioContext w) = Suspended \<and> resumeSettles (audioContext w) = Resolves")
  case True
  let ?w' = "w\<lparr>audioContext := (audioContext w)\<lparr>ctx_state := Running\<rparr>\<rparr>"
  have "grows (audioContext w) (audioContext ?w')" by simp
  moreover have "grows (audioContext ?w') (audioContext (snd (playBody a b lp ?w')))"
    by (rule grows_playBody)
  ultimately have "grows (audioContext w) (audioContext (snd (playBody a b lp ?w')))"
    by (rule grows_trans)
  with True show ?thesis by (simp add: play_def)
next
  case False
  then show ?thesis
    using grows_playBody [of w a b lp]
    by (cases "resumeSettles (audioContext w)") (auto simp: play_def)
qed

lemma grows_stop: "grows (audioContext w) (audioContext (snd (stop w)))"
  by (simp add: stop_def Let_def stopNode_eq split: option.splits)

lemma grows_pause: "grows (audioContext w) (audioContext (snd (pause w)))"
  by (simp add: pause_def Let_def stopNode_eq split: option.splits)

lemma grows_seek: "grows (audioContext w) (audioContext (snd (seek s w)))"
proof -
  obtain e w1 where st: "stop w = (e, w1)" by (cases "stop w")
  have g1: "grows (audioContext w) (audioContext w1)" using grows_stop [of w] st by simp
  let ?w2 = "w1\<lparr>player := (player w1)\<lparr>pauseOffset := s\<rparr>\<rparr>"
  have g2: "grows (audioContext w1) (audioContext (snd (play a b lp ?w2)))" for a b lp
    using grows_play [of ?w2 a b lp] by simp
  show ?thesis
    using st g1 grows_trans [OF g1 g2]
    by (cases e) (simp_all add: seek_def Let_def)
qed

lemma grows_step:
  "grows (audioContext w) (audioContext (step e w))"
proof (cases e)
  case (Load x)
  then show ?thesis by (simp add: load_def split: sum.splits)
next
  case (Play a b lp)
  then show ?thesis by (simp add: grows_play)
next
  case Pause
  then show ?thesis by (simp add: grows_pause)
next
  case Stop
  then show ?thesis by (simp add: grows_stop)
next
  case (Seek s)
  then show ?thesis by (simp add: grows_seek)
next
  case (SetRate r)
  then show ?thesis by (simp add: setRate_def Let_def grows_updNode split: option.splits)
next
  case (NaturalEnd n)
  then show ?thesis by (simp add: naturalEnd_def Let_def grows_updNode)
next
  case (EndedEvent n)
  have "grows (audioContext w) (updNode n (\<lambda>x. x\<lparr>node_state := Dispatched\<rparr>) (audioContext w))"
    by (simp add: grows_updNode)
  then show ?thesis
    by (simp add: EndedEvent endedEvent_def endedHandler_def Let_def split: option.splits)
next
  case (AnimationFrame i)
  then show ?thesis by (simp add: animationFrame_def)
next
  case (Advance dt)
  then show ?thesis by (simp add: advance_def)
qed

lemma delivered_step: 
  assumes d: "delivered w" shows "delivered (step e w)"
proof -
  have g: "grows (audioContext w) (audioContext (step e w))" by (rule grows_step)
  have keep: "delivered w'" if "endedCalls w' = endedCalls w" "grows (audioContext w) (audioContext w')" for w'
    using d that by (fastforce simp: delivered_def grows_def)
  show ?thesis
  proof (cases "\<exists>n cb. e = EndedEvent n \<and> endedCalls (step e w) = endedCalls w @ [(n, cb)]")
    case False
    then have "endedCalls (step e w) = endedCalls w"
      unfolding endedCalls_step by (auto split: event.splits option.splits if_splits)
    then show ?thesis using g by (rule keep)
  next
    case True
    then obtain n cb where e: "e = EndedEvent n"
      and l: "endedCalls (step e w) = endedCalls w @ [(n, cb)]" by blast
    from l have f: "n < length (nodes (audioContext w))"
        "node_state (nodes (audioContext w) ! n) = Finished"
      unfolding e endedCalls_step by (auto split: if_splits option.splits)
    then have new: "n \<notin> fst ` set (endedCalls w)"
      using d by (auto simp: delivered_def)
    have now: "node_state (nodes (audioContext (step e w)) ! n) = Dispatched"
      "n < length (nodes (audioContext (step e w)))"
      using f by (simp_all add: e endedEvent_def endedHandler_def Let_def updNode_def
          split: option.splits)
    show ?thesis
      using d g new now unfolding delivered_def l grows_def
      by auto
  qed
qed

lemma delivered_run: "delivered w \<Longrightarrow> delivered (run es w)"
  by (induction es arbitrary: w) (simp_all add: delivered_step)

text \<open>Each source causes at most one invocation of an end callback.\<close>

lemma ended_at_most_once: "distinct (map fst (endedCalls (run es (newWorld c))))"
proof -
  have "delivered (newWorld c)" by (simp add: delivered_def newWorld_def)
  then have "delivered (run es (newWorld c))" by (rule delivered_run)
  then show ?thesis by (simp add: delivered_def)
qed

text \<open>
  C3 fails on the code. The platform delivers the \<^verbatim>\<open>ended\<close> event of a source also when
  the source was stopped by \<^verbatim>\<open>stop()\<close>, and \<^verbatim>\<open>pause\<close>, \<^verbatim>\<open>stop\<close> and \<^verbatim>\<open>seek\<close> leave the handler
  of the source they stop in place. Evaluated on a player with callback 7 as \<^verbatim>\<open>onEnded\<close>:
  right after \<^verbatim>\<open>pause()\<close> nothing has been invoked, but once the event of the stopped source
  is delivered the callback runs, although the buffer was not played to its end; the same
  after \<^verbatim>\<open>stop()\<close> and after \<^verbatim>\<open>seek(0)\<close>. After \<^verbatim>\<open>seek(0)\<close> the handler of the old source
  also clears \<open>isPlaying\<close> while the new source renders, so that a further \<^verbatim>\<open>play()\<close> makes
  two sources render at once. The handler reads the loop flag of the player when it
  runs: the callback of a looping session is invoked when a non-looping \<^verbatim>\<open>play\<close> has followed
  its \<^verbatim>\<open>pause\<close>. After a natural end the callback runs once, and only once.
\<close>

theorem onEnded_invoked_after_explicit_stop:
  "endedCalls (run [Load fiveBytes, Play None (Some 7) False, Advance (1 / 48000), Pause]
                 (newWorld runningContext)) = []
   \<and> endedCalls (run [Load fiveBytes, Play None (Some 7) False, Advance (1 / 48000), Pause,
                      EndedEvent 0] (newWorld runningContext)) = [(0, 7)]
   \<and> endedCalls (run [Load fiveBytes, Play None (Some 7) False, Advance (1 / 48000), Stop,
                      EndedEvent 0] (newWorld runningContext)) = [(0, 7)]
   \<and> endedCalls (run [Load fiveBytes, Play None (Some 7) False, Advance (1 / 48000), Seek 0,
                      EndedEvent 0] (newWorld runningContext)) = [(0, 7)]
   \<and> \<not> isPlaying (player (run [Load fiveBytes, Play None (Some 7) False, Advance (1 / 48000),
                      Seek 0, EndedEvent 0] (newWorld runningContext)))
   \<and> activeSources (run [Load fiveBytes, Play None (Some 7) False, Advance (1 / 48000), Seek 0,
                      EndedEvent 0] (newWorld runningContext)) = 1
   \<and> activeSources (run [Load fiveBytes, Play None (Some 7) False, Advance (1 / 48000), Seek 0,
                      EndedEvent 0, Play None (Some 7) False] (newWorld runningContext)) = 2
   \<and> endedCalls (run [Load fiveBytes, Play None (Some 7) True, Advance (1 / 48000), Pause,
                      Play None (Some 8) False, EndedEvent 0] (newWorld runningContext)) = [(0, 7)]
   \<and> endedCalls (run [Load fiveBytes, Play None (Some 7) False, NaturalEnd 0, EndedEvent 0,
                      EndedEvent 0] (newWorld runningContext)) = [(0, 7)]"
  by code_simp

end
